theory Spec2Isabelle
  imports Main "HOL-Library.Product_Lexorder" "HOL-Library.Sublist"
begin

section \<open>Python values used by \<open>edk2_setup.py\<close>\<close>

text \<open>
  Exceptions are values. \<open>RuntimeError\<close> stands for \<open>RuntimeError\<close> and its subclasses
  (what \<open>except RuntimeError\<close> catches); \<open>OtherException\<close> stands for every exception
  class outside that hierarchy (\<open>OSError\<close>, \<open>Exception\<close>, \<open>KeyboardInterrupt\<close>, ...).
\<close>

datatype exn = RuntimeError string | IndexError | ValueError | OtherException string

text \<open>\<open>str(e)\<close> of an exception, as the handlers log it.\<close>

fun str_exn :: "exn \<Rightarrow> string" where
  "str_exn (RuntimeError m) = m"
| "str_exn IndexError = ''list index out of range''"
| "str_exn ValueError = ''invalid literal for int()''"
| "str_exn (OtherException m) = m"

definition newline :: char where
  "newline = CHR 0x0A"

text \<open>\<open>str.strip()\<close>: strings are ASCII here; the whitespace of \<open>str.isspace\<close> below 128.\<close>

definition is_space :: "char \<Rightarrow> bool" where
  "is_space c = (c \<in> set [CHR 0x09, CHR 0x0A, CHR 0x0B, CHR 0x0C, CHR 0x0D,
                           CHR 0x1C, CHR 0x1D, CHR 0x1E, CHR 0x1F, CHR 0x20])"

definition strip :: "string \<Rightarrow> string" where
  "strip s = rev (dropWhile is_space (rev (dropWhile is_space s)))"

text \<open>\<open>s.split(c)\<close> with an explicit one-character separator: empty pieces are kept.\<close>

fun py_split :: "char \<Rightarrow> string \<Rightarrow> string list" where
  "py_split c [] = [[]]"
| "py_split c (x # xs) =
     (if x = c then [] # py_split c xs
      else (case py_split c xs of
              piece # pieces \<Rightarrow> (x # piece) # pieces
            | [] \<Rightarrow> [[x]]))"

text \<open>\<open>sep.join(xs)\<close>.\<close>

fun py_join :: "string \<Rightarrow> string list \<Rightarrow> string" where
  "py_join sep [] = []"
| "py_join sep [x] = x"
| "py_join sep (x # y # ys) = x @ sep @ py_join sep (y # ys)"

text \<open>\<open>xs[i]\<close> for a non-negative literal index: out of range raises \<open>IndexError\<close>.\<close>

definition py_index :: "'a list \<Rightarrow> nat \<Rightarrow> exn + 'a" where
  "py_index xs i = (if i < length xs then Inr (xs ! i) else Inl IndexError)"

section \<open>Semantic version comparison\<close>

text \<open>Modelled from the spec: \<open>version_compare\<close> (imported from
  \<open>edk2toollib.utility_functions\<close>) is not under src/. The spec describes it as semantic
  version comparison, numeric per component and not string-wise. A component is read as a
  decimal number here.\<close>

definition is_digit :: "char \<Rightarrow> bool" where
  "is_digit c = (c \<in> set ''0123456789'')"

text \<open>Modelled from the spec: the numeric value of one version component (see
  \<open>version_compare\<close>, not under src/).\<close>

definition digits_val :: "string \<Rightarrow> nat" where
  "digits_val ds = foldl (\<lambda>n c. 10 * n + (of_char c - 48)) 0 ds"

text \<open>Modelled from the spec: reading one version component; a component that is not a
  non-empty digit string is a \<open>ValueError\<close> (see \<open>version_compare\<close>, not under src/).\<close>

definition parse_component :: "string \<Rightarrow> exn + nat" where
  "parse_component ds =
     (if ds \<noteq> [] \<and> list_all is_digit ds then Inr (digits_val ds) else Inl ValueError)"

text \<open>Modelled from the spec: the numeric tuple of a dotted version string (see
  \<open>version_compare\<close>, not under src/).\<close>

fun parse_components :: "string list \<Rightarrow> exn + nat list" where
  "parse_components [] = Inr []"
| "parse_components (d # ds) =
     (case parse_component d of
        Inl e \<Rightarrow> Inl e
      | Inr n \<Rightarrow> (case parse_components ds of Inl e \<Rightarrow> Inl e | Inr ns \<Rightarrow> Inr (n # ns)))"

text \<open>Modelled from the spec: component-wise numeric comparison of two tuples, the first
  difference deciding, a proper prefix being smaller (see \<open>version_compare\<close>, not under
  src/). The result is 1, 0 or -1.\<close>

fun tuple_compare :: "nat list \<Rightarrow> nat list \<Rightarrow> int" where
  "tuple_compare [] [] = 0"
| "tuple_compare [] (y # ys) = -1"
| "tuple_compare (x # xs) [] = 1"
| "tuple_compare (x # xs) (y # ys) =
     (if x < y then -1 else if y < x then 1 else tuple_compare xs ys)"

text \<open>Modelled from the spec: \<open>version_compare(version1, version2)\<close> of
  \<open>edk2toollib.utility_functions\<close>, which is not under src/: positive when \<open>version1\<close> is
  the newer one, by numeric comparison of the components.\<close>

definition version_compare :: "string \<Rightarrow> string \<Rightarrow> exn + int" where
  "version_compare version1 version2 =
     (case parse_components (py_split CHR ''.'' version1) of
        Inl e \<Rightarrow> Inl e
      | Inr a \<Rightarrow>
          (case parse_components (py_split CHR ''.'' version2) of
             Inl e \<Rightarrow> Inl e
           | Inr b \<Rightarrow> Inr (tuple_compare a b)))"

section \<open>The environment of a run\<close>

text \<open>
  One call of \<open>RunCmd(cmd, parameters, workingdir=..., raise_exception_on_nonzero=...)\<close>.
  The \<open>logging_level\<close> argument changes nothing that is observed here.
\<close>

datatype cmd_call =
  Call (cmd: string) (parameters: string) (workingdir: "string option")
       (raise_exception_on_nonzero: bool)

text \<open>What a call of \<open>RunCmd\<close> does: it raises, or it returns the exit code together with
  the text it wrote to \<open>outstream\<close>.\<close>

type_synonym cmd_outcome = "exn + int \<times> string"

datatype level = PROGRESS | INFO | WARNING | ERROR

datatype VersionTypes = TOOL

text \<open>Everything a run does to the outside, in the order it does it: subprocess calls
  (with what came back), reports to the version aggregator, and log lines.\<close>

datatype event =
  Cmd cmd_call cmd_outcome
| ReportVersion string string VersionTypes
| Log level string

type_synonym trace = "event list"

text \<open>
  The outside world is a parameter: \<open>RunCmd\<close>, \<open>os.path.exists\<close> and
  \<open>os.path.normpath(os.path.join(_, _))\<close> are library code. Their answers may depend on
  everything the run has done so far.
\<close>

record world =
  run_cmd :: "trace \<Rightarrow> cmd_call \<Rightarrow> cmd_outcome"
  path_exists :: "trace \<Rightarrow> string \<Rightarrow> bool"
  normjoin :: "string \<Rightarrow> string \<Rightarrow> string"

definition RunCmd :: "world \<Rightarrow> trace \<Rightarrow> cmd_call \<Rightarrow> trace \<times> cmd_outcome" where
  "RunCmd w tr c = (tr @ [Cmd c (run_cmd w tr c)], run_cmd w tr c)"

section \<open>The data model\<close>

record RequiredSubmodule =
  path :: string
  recursive :: bool

text \<open>The parsed command line (\<open>args.force\<close>, \<open>args.omnicache_path\<close>).\<close>

record args =
  force :: bool
  omnicache_path_arg :: "string option"

text \<open>
  The invocable: the two attributes set by \<open>RetrieveCommandLineOptions\<close>, and what
  \<open>self.PlatformSettings.GetRequiredSubmodules()\<close> and \<open>self.GetWorkspaceRoot()\<close> return.
\<close>

record Edk2PlatformSetup =
  force_it :: bool
  omnicache_path :: "string option"
  required_submodules :: "RequiredSubmodule list"
  workspace_path :: string

section \<open>\<open>Edk2PlatformSetup\<close>\<close>

text \<open>\<open>RetrieveCommandLineOptions\<close>: the attributes it sets and the warning it logs.\<close>

definition RetrieveCommandLineOptions ::
  "world \<Rightarrow> trace \<Rightarrow> args \<Rightarrow> Edk2PlatformSetup \<Rightarrow> trace \<times> Edk2PlatformSetup" where
  "RetrieveCommandLineOptions w tr a self =
     (case omnicache_path_arg a of
        Some p \<Rightarrow>
          (if \<not> path_exists w tr p
           then (tr @ [Log WARNING (''Omnicache path set to invalid path: '' @ p)],
                 self\<lparr>force_it := force a, omnicache_path := None\<rparr>)
           else (tr, self\<lparr>force_it := force a, omnicache_path := Some p\<rparr>))
      | None \<Rightarrow> (tr, self\<lparr>force_it := force a, omnicache_path := None\<rparr>))"

definition GetLoggingFileName :: "string \<Rightarrow> string" where
  "GetLoggingFileName loggerType = ''SETUPLOG''"

subsection \<open>Version check (lines 112-123)\<close>

definition git_version_call :: cmd_call where
  "git_version_call = Call ''git'' ''--version'' None True"

definition min_git :: string where
  "min_git = ''2.11.0''"

definition upgrade_message :: "string \<Rightarrow> string" where
  "upgrade_message cur_git =
     ''Please upgrade Git! Current version is '' @ cur_git @ ''. Minimum is '' @ min_git @ ''.''"

definition check_git_version :: "string \<Rightarrow> exn + unit" where
  "check_git_version git_version =
     (case py_index (py_split CHR '' '' git_version) 2 of
        Inl e \<Rightarrow> Inl e
      | Inr tok \<Rightarrow>
          (let cur_git = py_join ''.'' (take 3 (py_split CHR ''.'' tok)) in
           case version_compare min_git cur_git of
             Inl e \<Rightarrow> Inl e
           | Inr c \<Rightarrow>
               if c > 0 then Inl (RuntimeError (upgrade_message cur_git)) else Inr ()))"

subsection \<open>Force clean (lines 126-156)\<close>

definition done_msg :: string where
  "done_msg = ''Done.'' @ [newline]"

definition root_reset_call :: "Edk2PlatformSetup \<Rightarrow> cmd_call" where
  "root_reset_call self = Call ''git'' ''reset --hard'' (Some (workspace_path self)) True"

definition ignore_files :: string where
  "ignore_files = ''-e Build/'' @ GetLoggingFileName ''txt'' @ ''.txt -e Build/''
                   @ GetLoggingFileName ''md'' @ ''.md''"

definition root_clean_call :: "Edk2PlatformSetup \<Rightarrow> cmd_call" where
  "root_clean_call self =
     Call ''git'' (''clean -xffd '' @ ignore_files) (Some (workspace_path self)) True"

text \<open>Lines 129-137: the root repository.\<close>

definition clean_root :: "world \<Rightarrow> Edk2PlatformSetup \<Rightarrow> trace \<Rightarrow> trace \<times> (exn + unit)" where
  "clean_root w self tr =
     (case RunCmd w (tr @ [Log PROGRESS ''## Cleaning the root repo...''])
             (root_reset_call self) of
        (tr1, Inl e) \<Rightarrow> (tr1, Inl e)
      | (tr1, Inr _) \<Rightarrow>
          (case RunCmd w tr1 (root_clean_call self) of
             (tr2, Inl e) \<Rightarrow> (tr2, Inl e)
           | (tr2, Inr _) \<Rightarrow> (tr2 @ [Log PROGRESS done_msg], Inr ())))"

definition submodule_reset_call :: "world \<Rightarrow> Edk2PlatformSetup \<Rightarrow> RequiredSubmodule \<Rightarrow> cmd_call" where
  "submodule_reset_call w self sm =
     Call ''git'' ''reset --hard'' (Some (normjoin w (workspace_path self) (path sm))) True"

definition submodule_clean_call :: "world \<Rightarrow> Edk2PlatformSetup \<Rightarrow> RequiredSubmodule \<Rightarrow> cmd_call" where
  "submodule_clean_call w self sm =
     Call ''git'' ''clean -xffd'' (Some (normjoin w (workspace_path self) (path sm))) True"

text \<open>Lines 141-150: the loop over the submodules, inside the same \<open>try\<close>.\<close>

fun clean_submodules ::
  "world \<Rightarrow> Edk2PlatformSetup \<Rightarrow> RequiredSubmodule list \<Rightarrow> trace \<Rightarrow> trace \<times> (exn + unit)" where
  "clean_submodules w self [] tr = (tr, Inr ())"
| "clean_submodules w self (sm # sms) tr =
     (case RunCmd w (tr @ [Log PROGRESS (''## Cleaning Git repository: '' @ path sm @ ''...'')])
             (submodule_reset_call w self sm) of
        (tr1, Inl e) \<Rightarrow> (tr1, Inl e)
      | (tr1, Inr _) \<Rightarrow>
          (case RunCmd w tr1 (submodule_clean_call w self sm) of
             (tr2, Inl e) \<Rightarrow> (tr2, Inl e)
           | (tr2, Inr _) \<Rightarrow> clean_submodules w self sms (tr2 @ [Log PROGRESS done_msg])))"

text \<open>The body of the \<open>try\<close> of lines 127-150.\<close>

definition force_clean_body :: "world \<Rightarrow> Edk2PlatformSetup \<Rightarrow> trace \<Rightarrow> trace \<times> (exn + unit)" where
  "force_clean_body w self tr =
     (case clean_root w self tr of
        (tr1, Inl e) \<Rightarrow> (tr1, Inl e)
      | (tr1, Inr _) \<Rightarrow>
          (if required_submodules self \<noteq> []
           then clean_submodules w self (required_submodules self) tr1
           else (tr1, Inr ())))"

text \<open>
  The \<open>try\<close> with its handler (lines 127-156). The result \<open>Inr (Some r)\<close> is
  \<open>return r\<close>, \<open>Inr None\<close> is falling through to the statement after the \<open>try\<close>, and
  \<open>Inl e\<close> is an exception that the handler does not catch.
\<close>

definition failed_msg :: string where
  "failed_msg = ''FAILED!'' @ [newline]"

definition force_clean ::
  "world \<Rightarrow> Edk2PlatformSetup \<Rightarrow> trace \<Rightarrow> trace \<times> (exn + int option)" where
  "force_clean w self tr =
     (case force_clean_body w self tr of
        (tr1, Inr _) \<Rightarrow> (tr1, Inr None)
      | (tr1, Inl (RuntimeError m)) \<Rightarrow>
          (tr1 @ [Log ERROR failed_msg,
                  Log ERROR ''Error while trying to clean the environment!'',
                  Log ERROR m],
           Inr (Some (-1)))
      | (tr1, Inl e) \<Rightarrow> (tr1, Inl e))"

subsection \<open>Sync (lines 164-175)\<close>

definition submodule_string :: "Edk2PlatformSetup \<Rightarrow> string" where
  "submodule_string self = py_join '' '' (map path (required_submodules self))"

definition sync_call :: "Edk2PlatformSetup \<Rightarrow> cmd_call" where
  "sync_call self =
     Call ''git'' (''submodule sync -- '' @ submodule_string self)
          (Some (workspace_path self)) True"

definition sync_repos ::
  "world \<Rightarrow> Edk2PlatformSetup \<Rightarrow> trace \<Rightarrow> trace \<times> (exn + int option)" where
  "sync_repos w self tr =
     (case RunCmd w
             (tr @ [Log PROGRESS (''## Syncing Git repositories: '' @ submodule_string self @ ''...'')])
             (sync_call self) of
        (tr1, Inr _) \<Rightarrow> (tr1 @ [Log PROGRESS done_msg], Inr None)
      | (tr1, Inl (RuntimeError m)) \<Rightarrow>
          (tr1 @ [Log ERROR failed_msg,
                  Log ERROR ''Error while trying to synchronize the environment!'',
                  Log ERROR m],
           Inr (Some (-1)))
      | (tr1, Inl e) \<Rightarrow> (tr1, Inl e))"

subsection \<open>One submodule (lines 180-225)\<close>

definition diff_call :: "Edk2PlatformSetup \<Rightarrow> RequiredSubmodule \<Rightarrow> cmd_call" where
  "diff_call self sm =
     Call ''git'' (''diff '' @ path sm) (Some (workspace_path self)) True"

text \<open>Step 2a (lines 185-200): the value of \<open>skip_repo\<close>.\<close>

definition skip_decision ::
  "world \<Rightarrow> Edk2PlatformSetup \<Rightarrow> trace \<Rightarrow> RequiredSubmodule \<Rightarrow> trace \<times> (exn + bool)" where
  "skip_decision w self tr sm =
     (if path_exists w tr (normjoin w (workspace_path self) (path sm)) \<and> \<not> force_it self
      then (case RunCmd w tr (diff_call self sm) of
              (tr1, Inl e) \<Rightarrow> (tr1, Inl e)
            | (tr1, Inr (rc, out)) \<Rightarrow>
                (if strip out \<noteq> ''''
                 then (tr1 @ [Log INFO ''-- NOTE: Repo currently exists and appears to have local changes!'',
                              Log INFO ''-- Skipping fetch!''],
                       Inr True)
                 else (tr1, Inr False)))
      else (tr, Inr False))"

definition cmd_string :: "Edk2PlatformSetup \<Rightarrow> RequiredSubmodule \<Rightarrow> string" where
  "cmd_string self sm =
     ''submodule update --init''
     @ (if recursive sm then '' --recursive'' else '''')
     @ '' --progress''
     @ (case omnicache_path self of None \<Rightarrow> '''' | Some p \<Rightarrow> '' --reference '' @ p)
     @ '' '' @ path sm"

definition fetch_call :: "Edk2PlatformSetup \<Rightarrow> RequiredSubmodule \<Rightarrow> cmd_call" where
  "fetch_call self sm = Call ''git'' (cmd_string self sm) (Some (workspace_path self)) False"

text \<open>Step 2b (lines 205-217), run when the repository is not skipped.\<close>

definition fetch_repo ::
  "world \<Rightarrow> Edk2PlatformSetup \<Rightarrow> trace \<Rightarrow> RequiredSubmodule \<Rightarrow> trace \<times> (exn + unit)" where
  "fetch_repo w self tr sm =
     (case RunCmd w (tr @ [Log INFO ''## Fetching repo.'']) (fetch_call self sm) of
        (tr1, Inl e) \<Rightarrow> (tr1, Inl e)
      | (tr1, Inr (ret, out)) \<Rightarrow>
          (if ret \<noteq> 0
           then (tr1 @ [Log ERROR (''Failed to fetch '' @ path sm)],
                 Inl (RuntimeError ''Unable to checkout repo due to error''))
           else (tr1, Inr ())))"

text \<open>The body of the \<open>try\<close> of lines 180-219.\<close>

definition submodule_body ::
  "world \<Rightarrow> Edk2PlatformSetup \<Rightarrow> trace \<Rightarrow> RequiredSubmodule \<Rightarrow> trace \<times> (exn + unit)" where
  "submodule_body w self tr sm =
     (case skip_decision w self
             (tr @ [Log PROGRESS (''## Checking Git repository: '' @ path sm @ ''...'')]) sm of
        (tr1, Inl e) \<Rightarrow> (tr1, Inl e)
      | (tr1, Inr skip_repo) \<Rightarrow>
          (if \<not> skip_repo \<or> force_it self
           then (case fetch_repo w self tr1 sm of
                   (tr2, Inl e) \<Rightarrow> (tr2, Inl e)
                 | (tr2, Inr _) \<Rightarrow> (tr2 @ [Log PROGRESS done_msg], Inr ()))
           else (tr1 @ [Log PROGRESS done_msg], Inr ())))"

text \<open>One iteration with its handler (lines 180-225): the new value of \<open>result\<close>, or an
  exception that is not a \<open>RuntimeError\<close> and leaves the loop.\<close>

definition submodule_step ::
  "world \<Rightarrow> Edk2PlatformSetup \<Rightarrow> trace \<Rightarrow> int \<Rightarrow> RequiredSubmodule \<Rightarrow> trace \<times> (exn + int)" where
  "submodule_step w self tr result sm =
     (case submodule_body w self tr sm of
        (tr1, Inr _) \<Rightarrow> (tr1, Inr result)
      | (tr1, Inl (RuntimeError m)) \<Rightarrow>
          (tr1 @ [Log ERROR failed_msg,
                  Log ERROR (''Failed to fetch required repository!'' @ [newline]),
                  Log ERROR m],
           Inr (-1))
      | (tr1, Inl e) \<Rightarrow> (tr1, Inl e))"

text \<open>The \<open>for\<close> loop of lines 179-225.\<close>

fun submodule_loop ::
  "world \<Rightarrow> Edk2PlatformSetup \<Rightarrow> RequiredSubmodule list \<Rightarrow> trace \<Rightarrow> int \<Rightarrow> trace \<times> (exn + int)" where
  "submodule_loop w self [] tr result = (tr, Inr result)"
| "submodule_loop w self (sm # sms) tr result =
     (case submodule_step w self tr result sm of
        (tr1, Inl e) \<Rightarrow> (tr1, Inl e)
      | (tr1, Inr result') \<Rightarrow> submodule_loop w self sms tr1 result')"

subsection \<open>\<open>Go\<close>\<close>

text \<open>Lines 158-227: everything after the force clean.\<close>

definition grab_repos :: "world \<Rightarrow> Edk2PlatformSetup \<Rightarrow> trace \<Rightarrow> trace \<times> (exn + int)" where
  "grab_repos w self tr =
     (if required_submodules self \<noteq> [] \<and> length (required_submodules self) > 0
      then (case sync_repos w self tr of
              (tr1, Inl e) \<Rightarrow> (tr1, Inl e)
            | (tr1, Inr (Some r)) \<Rightarrow> (tr1, Inr r)
            | (tr1, Inr None) \<Rightarrow> submodule_loop w self (required_submodules self) tr1 0)
      else (tr, Inr 0))"

text \<open>Lines 125-227: everything after the version check.\<close>

definition setup_repos :: "world \<Rightarrow> Edk2PlatformSetup \<Rightarrow> trace \<Rightarrow> trace \<times> (exn + int)" where
  "setup_repos w self tr =
     (if force_it self
      then (case force_clean w self tr of
              (tr1, Inl e) \<Rightarrow> (tr1, Inl e)
            | (tr1, Inr (Some r)) \<Rightarrow> (tr1, Inr r)
            | (tr1, Inr None) \<Rightarrow> grab_repos w self tr1)
      else grab_repos w self tr)"

text \<open>\<open>Go\<close>: the trace of the run, and \<open>Inr\<close> the returned integer or \<open>Inl\<close> the exception
  that leaves \<open>Go\<close>.\<close>

definition Go :: "world \<Rightarrow> Edk2PlatformSetup \<Rightarrow> trace \<times> (exn + int)" where
  "Go w self =
     (case RunCmd w [] git_version_call of
        (tr1, Inl e) \<Rightarrow> (tr1, Inl e)
      | (tr1, Inr (rc, out)) \<Rightarrow>
          (let git_version = strip out;
               tr2 = tr1 @ [ReportVersion ''Git'' git_version TOOL]
           in case check_git_version git_version of
                Inl e \<Rightarrow> (tr2, Inl e)
              | Inr _ \<Rightarrow> setup_repos w self tr2))"

section \<open>Observing a run\<close>

text \<open>The events a stage may add: log lines, and subprocess calls of the kind \<open>A\<close>.\<close>

fun stage_event :: "(cmd_call \<Rightarrow> bool) \<Rightarrow> event \<Rightarrow> bool" where
  "stage_event A (Cmd c out) = A c"
| "stage_event A (ReportVersion n v t) = False"
| "stage_event A (Log l m) = True"

definition extends_by :: "(cmd_call \<Rightarrow> bool) \<Rightarrow> trace \<Rightarrow> trace \<Rightarrow> bool" where
  "extends_by A tr tr' = (\<exists>new. tr' = tr @ new \<and> list_all (stage_event A) new)"

definition root_stage_call :: "Edk2PlatformSetup \<Rightarrow> cmd_call \<Rightarrow> bool" where
  "root_stage_call self c = (c = root_reset_call self \<or> c = root_clean_call self)"

definition submodule_clean_stage_call :: "world \<Rightarrow> Edk2PlatformSetup \<Rightarrow> RequiredSubmodule list \<Rightarrow> cmd_call \<Rightarrow> bool" where
  "submodule_clean_stage_call w self sms c =
     (\<exists>sm\<in>set sms. c = submodule_reset_call w self sm \<or> c = submodule_clean_call w self sm)"

definition submodule_stage_call :: "Edk2PlatformSetup \<Rightarrow> RequiredSubmodule list \<Rightarrow> cmd_call \<Rightarrow> bool" where
  "submodule_stage_call self sms c =
     (\<exists>sm\<in>set sms. c = diff_call self sm \<or> c = fetch_call self sm)"

definition grab_stage_call :: "Edk2PlatformSetup \<Rightarrow> cmd_call \<Rightarrow> bool" where
  "grab_stage_call self c =
     (c = sync_call self \<or> submodule_stage_call self (required_submodules self) c)"

definition clean_stage_call :: "world \<Rightarrow> Edk2PlatformSetup \<Rightarrow> cmd_call \<Rightarrow> bool" where
  "clean_stage_call w self c =
     (root_stage_call self c \<or> submodule_clean_stage_call w self (required_submodules self) c)"

definition setup_stage_call :: "world \<Rightarrow> Edk2PlatformSetup \<Rightarrow> cmd_call \<Rightarrow> bool" where
  "setup_stage_call w self c = (clean_stage_call w self c \<or> grab_stage_call self c)"

fun reports :: "trace \<Rightarrow> (string \<times> string \<times> VersionTypes) list" where
  "reports [] = []"
| "reports (ReportVersion n v t # es) = (n, v, t) # reports es"
| "reports (Cmd c out # es) = reports es"
| "reports (Log l m # es) = reports es"

text \<open>The subprocess calls of a trace, in order.\<close>

fun calls :: "trace \<Rightarrow> cmd_call list" where
  "calls [] = []"
| "calls (Cmd c out # es) = c # calls es"
| "calls (ReportVersion n v t # es) = calls es"
| "calls (Log l m # es) = calls es"

text \<open>Every log line \<open>## Fetching repo.\<close> (line 205) of the events is directly followed by
  a command, and this command satisfies \<open>Q\<close>.\<close>

fun fetches_ok :: "(cmd_call \<Rightarrow> bool) \<Rightarrow> event list \<Rightarrow> bool" where
  "fetches_ok Q [] = True"
| "fetches_ok Q [e] = (e \<noteq> Log INFO ''## Fetching repo.'')"
| "fetches_ok Q (e # e' # es) =
     ((e = Log INFO ''## Fetching repo.'' \<longrightarrow> (case e' of Cmd c oc \<Rightarrow> Q c | _ \<Rightarrow> False))
      \<and> fetches_ok Q (e' # es))"

section \<open>Concrete runs\<close>

text \<open>A world in which \<open>git --version\<close> prints the given version, every other call
  answers by \<open>respond\<close>, and the paths in \<open>ex\<close> exist.\<close>

definition scripted_world ::
  "string \<Rightarrow> (cmd_call \<Rightarrow> cmd_outcome) \<Rightarrow> (string \<Rightarrow> bool) \<Rightarrow> world" where
  "scripted_world ver respond ex =
     \<lparr> run_cmd = (\<lambda>tr c. if c = git_version_call
                          then Inr (0, ''git version '' @ ver @ [newline]) else respond c),
       path_exists = (\<lambda>tr p. ex p),
       normjoin = (\<lambda>a b. a @ ''/'' @ b) \<rparr>"

definition mu :: RequiredSubmodule where
  "mu = \<lparr> path = ''Common/MU'', recursive = True \<rparr>"

definition tiano :: RequiredSubmodule where
  "tiano = \<lparr> path = ''Tiano'', recursive = False \<rparr>"

definition setup0 :: Edk2PlatformSetup where
  "setup0 = \<lparr> force_it = False, omnicache_path = None,
              required_submodules = [mu, tiano], workspace_path = ''/ws'' \<rparr>"

text \<open>Every command succeeds silently; no path exists.\<close>

definition all_ok :: "cmd_call \<Rightarrow> cmd_outcome" where
  "all_ok c = Inr (0, [])"

definition nothing_exists :: "string \<Rightarrow> bool" where
  "nothing_exists p = False"

definition submodule_clean_calls :: "world \<Rightarrow> Edk2PlatformSetup \<Rightarrow> RequiredSubmodule list \<Rightarrow> cmd_call list" where
  "submodule_clean_calls w self sms =
     concat (map (\<lambda>sm. [submodule_reset_call w self sm, submodule_clean_call w self sm]) sms)"

definition force_clean_calls :: "world \<Rightarrow> Edk2PlatformSetup \<Rightarrow> cmd_call list" where
  "force_clean_calls w self =
     root_reset_call self # root_clean_call self
       # submodule_clean_calls w self (required_submodules self)"

definition forced_run_calls :: "world \<Rightarrow> Edk2PlatformSetup \<Rightarrow> cmd_call list" where
  "forced_run_calls w self =
     git_version_call # force_clean_calls w self
       @ sync_call self # map (fetch_call self) (required_submodules self)"

text \<open>A stage issues a prefix of the calls \<open>E\<close>.\<close>

definition issues :: "trace \<Rightarrow> trace \<Rightarrow> cmd_call list \<Rightarrow> bool" where
  "issues tr tr' E = (\<exists>cs. calls tr' = calls tr @ cs \<and> prefix cs E)"

definition grab_calls :: "Edk2PlatformSetup \<Rightarrow> cmd_call list" where
  "grab_calls self = sync_call self # map (fetch_call self) (required_submodules self)"

definition setup_forced :: Edk2PlatformSetup where
  "setup_forced = setup0\<lparr>force_it := True\<rparr>"

text \<open>\<open>git reset --hard\<close> fails, and \<open>RunCmd\<close> raises a \<open>RuntimeError\<close> for it.\<close>

definition reset_fails :: "cmd_call \<Rightarrow> cmd_outcome" where
  "reset_fails c =
     (if parameters c = ''reset --hard''
      then Inl (RuntimeError ''git reset --hard failed with error code 128'')
      else Inr (0, []))"

text \<open>Every path exists, and every \<open>git diff\<close> prints a change.\<close>

definition everything_exists :: "string \<Rightarrow> bool" where
  "everything_exists p = True"

definition dirty_diff :: "cmd_call \<Rightarrow> cmd_outcome" where
  "dirty_diff c =
     (if prefix ''diff '' (parameters c)
      then Inr (0, ''diff --git a/Readme.md b/Readme.md'' @ [newline])
      else Inr (0, []))"

definition omnicache_args :: args where
  "omnicache_args = \<lparr> force = False, omnicache_path_arg = Some ''/omnicache'' \<rparr>"

definition setup_omni :: Edk2PlatformSetup where
  "setup_omni = setup0\<lparr>omnicache_path := Some ''/omnicache''\<rparr>"

definition checking_msg :: "RequiredSubmodule \<Rightarrow> string" where
  "checking_msg sm = ''## Checking Git repository: '' @ path sm @ ''...''"

text \<open>The events of a dirty check that lets the fetch go ahead: none when the check is
  not made, else a diff that returned blank output.\<close>

definition clean_check :: "Edk2PlatformSetup \<Rightarrow> RequiredSubmodule \<Rightarrow> event list \<Rightarrow> bool" where
  "clean_check self sm pre =
     (pre = [] \<or> (\<exists>rc out. pre = [Cmd (diff_call self sm) (Inr (rc, out))] \<and> strip out = []))"

text \<open>The three error lines of the handler of lines 221-225.\<close>

definition fetch_handler_logs :: "string \<Rightarrow> event list" where
  "fetch_handler_logs m =
     [Log ERROR failed_msg, Log ERROR (''Failed to fetch required repository!'' @ [newline]),
      Log ERROR m]"

text \<open>What the trace shows for a submodule whose iteration was completed: it was fetched,
  or skipped as dirty, or its dirty check failed with a \<open>RuntimeError\<close>.\<close>

definition processed :: "Edk2PlatformSetup \<Rightarrow> event list \<Rightarrow> RequiredSubmodule \<Rightarrow> bool" where
  "processed self es sm =
     (Log PROGRESS (''## Checking Git repository: '' @ path sm @ ''...'') \<in> set es
      \<and> ((\<exists>oc. Cmd (fetch_call self sm) oc \<in> set es)
         \<or> (\<exists>rc out. Cmd (diff_call self sm) (Inr (rc, out)) \<in> set es \<and> strip out \<noteq> [])
         \<or> (\<exists>m. Cmd (diff_call self sm) (Inl (RuntimeError m)) \<in> set es)))"

text \<open>Every command of the events returned exit code 0.\<close>

fun succeeded :: "event \<Rightarrow> bool" where
  "succeeded (Cmd c (Inr (rc, out))) = (rc = 0)"
| "succeeded (Cmd c (Inl e)) = False"
| "succeeded (ReportVersion n v t) = True"
| "succeeded (Log l m) = True"

definition all_succeeded :: "event list \<Rightarrow> bool" where
  "all_succeeded es = list_all succeeded es"

text \<open>The fetch of \<open>Common/MU\<close> exits with code 1.\<close>

definition mu_fetch_fails :: "cmd_call \<Rightarrow> cmd_outcome" where
  "mu_fetch_fails c =
     (if parameters c = ''submodule update --init --recursive --progress Common/MU''
      then Inr (1, []) else Inr (0, []))"

text \<open>Every fetch exits with code 1 and every diff prints a change.\<close>

definition fetch_fails_dirty :: "cmd_call \<Rightarrow> cmd_outcome" where
  "fetch_fails_dirty c =
     (if prefix ''submodule update'' (parameters c) then Inr (1, []) else dirty_diff c)"

definition only_tiano_exists :: "string \<Rightarrow> bool" where
  "only_tiano_exists p = (p = ''/ws/Tiano'')"



text \<open>\<open>git reset --hard\<close> exits with code 128. It is run with
  \<open>raise_exception_on_nonzero\<close>, and \<open>RunCmd\<close> raises an \<open>Exception\<close> for the exit code,
  which is not a \<open>RuntimeError\<close>.\<close>

definition reset_exits_128 :: "cmd_call \<Rightarrow> cmd_outcome" where
  "reset_exits_128 c =
     (if parameters c = ''reset --hard''
      then Inl (OtherException ''git reset --hard failed with error code 128'')
      else Inr (0, []))"


section \<open>How a run extends its trace\<close>

lemma extends_refl: "extends_by A tr tr"
  by (simp add: extends_by_def)

lemma extends_trans: "extends_by A tr tr' \<Longrightarrow> extends_by A tr' tr'' \<Longrightarrow> extends_by A tr tr''"
  by (auto simp: extends_by_def)

lemma extends_log: "extends_by A tr tr' \<Longrightarrow> extends_by A tr (tr' @ [Log l m])"
  by (auto simp: extends_by_def)

lemma extends_logs: "extends_by A tr tr' \<Longrightarrow> list_all (stage_event A) es \<Longrightarrow> extends_by A tr (tr' @ es)"
  by (auto simp: extends_by_def)

lemma extends_cmd: "extends_by A tr tr' \<Longrightarrow> A c \<Longrightarrow> extends_by A tr (tr' @ [Cmd c out])"
  by (auto simp: extends_by_def)

lemma extends_RunCmd: "extends_by A tr tr' \<Longrightarrow> A c \<Longrightarrow> extends_by A tr (fst (RunCmd w tr' c))"
  by (simp add: RunCmd_def extends_cmd)

lemma extends_mono: "extends_by A tr tr' \<Longrightarrow> (\<And>c. A c \<Longrightarrow> B c) \<Longrightarrow> extends_by B tr tr'"
proof -
  assume e: "extends_by A tr tr'" and m: "\<And>c. A c \<Longrightarrow> B c"
  have "stage_event A e \<Longrightarrow> stage_event B e" for e
    by (cases e) (auto simp: m)
  with e show ?thesis
    by (auto simp: extends_by_def list_all_iff)
qed

lemma clean_root_extends:
  "extends_by (root_stage_call self) tr (fst (clean_root w self tr))"
  by (auto simp: clean_root_def RunCmd_def root_stage_call_def extends_by_def
           split: sum.splits prod.splits)

lemma clean_submodules_extends:
  "extends_by (submodule_clean_stage_call w self sms) tr (fst (clean_submodules w self sms tr))"
proof (induction sms arbitrary: tr)
  case Nil
  show ?case by (simp add: extends_refl)
next
  case (Cons sm sms)
  let ?A = "submodule_clean_stage_call w self (sm # sms)"
  let ?tr0 = "tr @ [Log PROGRESS (''## Cleaning Git repository: '' @ path sm @ ''...'')]"
  let ?tr1 = "?tr0 @ [Cmd (submodule_reset_call w self sm) (run_cmd w ?tr0 (submodule_reset_call w self sm))]"
  let ?tr2 = "?tr1 @ [Cmd (submodule_clean_call w self sm) (run_cmd w ?tr1 (submodule_clean_call w self sm))]"
  have e1: "extends_by ?A tr ?tr1"
    by (auto simp: extends_by_def submodule_clean_stage_call_def)
  have e2: "extends_by ?A tr ?tr2"
    by (auto simp: extends_by_def submodule_clean_stage_call_def)
  have e3: "extends_by ?A tr (fst (clean_submodules w self sms (?tr2 @ [Log PROGRESS done_msg])))"
  proof -
    have "extends_by ?A (?tr2 @ [Log PROGRESS done_msg])
            (fst (clean_submodules w self sms (?tr2 @ [Log PROGRESS done_msg])))"
      by (rule extends_mono [OF Cons.IH]) (auto simp: submodule_clean_stage_call_def)
    with extends_log [OF e2] show ?thesis
      by (blast intro: extends_trans)
  qed
  show ?case
    using e1 e2 e3 by (auto simp: RunCmd_def split: sum.splits prod.splits)
qed

lemma skip_decision_extends:
  "extends_by (submodule_stage_call self [sm]) tr (fst (skip_decision w self tr sm))"
  by (auto simp: skip_decision_def RunCmd_def submodule_stage_call_def extends_by_def
           split: sum.splits prod.splits)

lemma fetch_repo_extends:
  "extends_by (submodule_stage_call self [sm]) tr (fst (fetch_repo w self tr sm))"
  by (auto simp: fetch_repo_def RunCmd_def submodule_stage_call_def extends_by_def
           split: sum.splits prod.splits)

lemma submodule_body_extends:
  "extends_by (submodule_stage_call self [sm]) tr (fst (submodule_body w self tr sm))"
proof -
  let ?A = "submodule_stage_call self [sm]"
  let ?tr0 = "tr @ [Log PROGRESS (''## Checking Git repository: '' @ path sm @ ''...'')]"
  have e0: "extends_by ?A tr ?tr0"
    by (rule extends_log [OF extends_refl])
  have e1: "extends_by ?A tr (fst (skip_decision w self ?tr0 sm))"
    by (rule extends_trans [OF e0 skip_decision_extends])
  have e2: "extends_by ?A tr (fst (fetch_repo w self (fst (skip_decision w self ?tr0 sm)) sm))"
    by (rule extends_trans [OF e1 fetch_repo_extends])
  show ?thesis
    using e1 e2 extends_log [OF e1] extends_log [OF e2]
    by (auto simp: submodule_body_def split: sum.splits prod.splits)
qed

lemma submodule_step_extends:
  "extends_by (submodule_stage_call self [sm]) tr (fst (submodule_step w self tr result sm))"
proof -
  have e: "extends_by (submodule_stage_call self [sm]) tr (fst (submodule_body w self tr sm))"
    by (rule submodule_body_extends)
  show ?thesis
    using e extends_logs [OF e]
    by (auto simp: submodule_step_def split: sum.splits prod.splits exn.splits)
qed

lemma submodule_loop_extends:
  "extends_by (submodule_stage_call self sms) tr (fst (submodule_loop w self sms tr result))"
proof (induction sms arbitrary: tr result)
  case Nil
  show ?case by (simp add: extends_refl)
next
  case (Cons sm sms)
  let ?A = "submodule_stage_call self (sm # sms)"
  have e1: "extends_by ?A tr (fst (submodule_step w self tr result sm))"
    by (rule extends_mono [OF submodule_step_extends]) (auto simp: submodule_stage_call_def)
  have e2: "extends_by ?A tr' (fst (submodule_loop w self sms tr' r'))" for tr' r'
    by (rule extends_mono [OF Cons.IH]) (auto simp: submodule_stage_call_def)
  show ?case
  proof (cases "submodule_step w self tr result sm")
    case (Pair tr1 res)
    with e1 have e1': "extends_by ?A tr tr1" by simp
    show ?thesis
    proof (cases res)
      case (Inl e)
      with Pair e1' show ?thesis by simp
    next
      case (Inr r')
      with Pair extends_trans [OF e1' e2 [of tr1 r']] show ?thesis by simp
    qed
  qed
qed

lemma sync_repos_extends:
  "extends_by (grab_stage_call self) tr (fst (sync_repos w self tr))"
  by (auto simp: sync_repos_def RunCmd_def grab_stage_call_def extends_by_def
           split: sum.splits prod.splits exn.splits)

lemma grab_repos_extends:
  "extends_by (grab_stage_call self) tr (fst (grab_repos w self tr))"
proof -
  let ?A = "grab_stage_call self"
  have e1: "extends_by ?A tr (fst (sync_repos w self tr))"
    by (rule sync_repos_extends)
  have e2: "extends_by ?A tr (fst (submodule_loop w self (required_submodules self)
                                     (fst (sync_repos w self tr)) 0))"
    by (rule extends_trans [OF e1 extends_mono [OF submodule_loop_extends]])
       (simp add: grab_stage_call_def)
  show ?thesis
    using e1 e2
    by (auto simp: grab_repos_def extends_refl split: sum.splits prod.splits option.splits)
qed

lemma force_clean_body_extends:
  "extends_by (clean_stage_call w self) tr (fst (force_clean_body w self tr))"
proof -
  let ?A = "clean_stage_call w self"
  have e1: "extends_by ?A tr (fst (clean_root w self tr))"
    by (rule extends_mono [OF clean_root_extends]) (simp add: clean_stage_call_def)
  have e2: "extends_by ?A tr (fst (clean_submodules w self (required_submodules self)
                                     (fst (clean_root w self tr))))"
    by (rule extends_trans [OF e1 extends_mono [OF clean_submodules_extends]])
       (simp add: clean_stage_call_def)
  show ?thesis
    using e1 e2
    by (auto simp: force_clean_body_def split: sum.splits prod.splits)
qed

lemma force_clean_extends:
  "extends_by (clean_stage_call w self) tr (fst (force_clean w self tr))"
proof -
  have e: "extends_by (clean_stage_call w self) tr (fst (force_clean_body w self tr))"
    by (rule force_clean_body_extends)
  show ?thesis
    using e extends_logs [OF e]
    by (auto simp: force_clean_def split: sum.splits prod.splits exn.splits)
qed

lemma setup_repos_extends:
  "extends_by (setup_stage_call w self) tr (fst (setup_repos w self tr))"
proof -
  let ?A = "setup_stage_call w self"
  have g: "extends_by ?A tr' (fst (grab_repos w self tr'))" for tr'
    by (rule extends_mono [OF grab_repos_extends]) (simp add: setup_stage_call_def)
  have e1: "extends_by ?A tr (fst (force_clean w self tr))"
    by (rule extends_mono [OF force_clean_extends]) (simp add: setup_stage_call_def)
  have e2: "extends_by ?A tr (fst (grab_repos w self (fst (force_clean w self tr))))"
    by (rule extends_trans [OF e1 g])
  show ?thesis
    using e1 e2 g [of tr]
    by (auto simp: setup_repos_def split: sum.splits prod.splits option.splits)
qed

text \<open>The three shapes of a run.\<close>

lemma Go_cases:
  obtains (query_raised) e where
      "run_cmd w [] git_version_call = Inl e"
      "Go w self = ([Cmd git_version_call (Inl e)], Inl e)"
  | (check_failed) rc out e where
      "run_cmd w [] git_version_call = Inr (rc, out)"
      "check_git_version (strip out) = Inl e"
      "Go w self = ([Cmd git_version_call (Inr (rc, out)), ReportVersion ''Git'' (strip out) TOOL], Inl e)"
  | (check_passed) rc out where
      "run_cmd w [] git_version_call = Inr (rc, out)"
      "check_git_version (strip out) = Inr ()"
      "Go w self = setup_repos w self
         [Cmd git_version_call (Inr (rc, out)), ReportVersion ''Git'' (strip out) TOOL]"
proof (cases "run_cmd w [] git_version_call")
  case (Inl e)
  then have "Go w self = ([Cmd git_version_call (Inl e)], Inl e)"
    by (simp add: Go_def RunCmd_def)
  with Inl show ?thesis by (rule query_raised)
next
  case (Inr p)
  obtain rc out where p: "p = (rc, out)" by (cases p)
  show ?thesis
  proof (cases "check_git_version (strip out)")
    case (Inl e)
    with Inr p have "Go w self = ([Cmd git_version_call (Inr (rc, out)), ReportVersion ''Git'' (strip out) TOOL], Inl e)"
      by (simp add: Go_def RunCmd_def)
    with Inr p Inl show ?thesis by (auto intro: check_failed)
  next
    case (Inr u)
    with \<open>run_cmd w [] git_version_call = Inr p\<close> p
    have "Go w self = setup_repos w self
         [Cmd git_version_call (Inr (rc, out)), ReportVersion ''Git'' (strip out) TOOL]"
      by (simp add: Go_def RunCmd_def)
    with \<open>run_cmd w [] git_version_call = Inr p\<close> p Inr show ?thesis
      by (auto intro: check_passed)
  qed
qed

lemma reports_append: "reports (xs @ ys) = reports xs @ reports ys"
  by (induction xs rule: reports.induct) auto

lemma reports_stage_events: "list_all (stage_event A) es \<Longrightarrow> reports es = []"
  by (induction es rule: reports.induct) auto

lemma reports_extends: "extends_by A tr tr' \<Longrightarrow> reports tr' = reports tr"
  by (auto simp: extends_by_def reports_append reports_stage_events)

section \<open>The version report\<close>

text \<open>
  Claim C10. In every run in which \<open>git --version\<close> returns, so that the version check
  is reached, the stripped output is reported to the version aggregator as
  \<open>("Git", version, TOOL)\<close> directly after the query and before the minimum-version
  comparison: the report is the second event of the trace, it is the only report of the
  run, and a run that the check aborts (too old a version, or a version string the check
  cannot read) ends with exactly the query and the report in its trace.
\<close>

theorem version_reported_once:
  assumes "run_cmd w [] git_version_call = Inr (rc, out)"
  shows "reports (fst (Go w self)) = [(''Git'', strip out, TOOL)]
         \<and> take 2 (fst (Go w self))
             = [Cmd git_version_call (Inr (rc, out)), ReportVersion ''Git'' (strip out) TOOL]
         \<and> (\<forall>e. check_git_version (strip out) = Inl e \<longrightarrow>
               Go w self = ([Cmd git_version_call (Inr (rc, out)),
                             ReportVersion ''Git'' (strip out) TOOL], Inl e))"
proof (cases rule: Go_cases [of w self])
  case (query_raised e)
  with assms show ?thesis by simp
next
  case (check_failed rc' out' e)
  with assms show ?thesis by simp
next
  case (check_passed rc' out')
  let ?tr = "[Cmd git_version_call (Inr (rc, out)), ReportVersion ''Git'' (strip out) TOOL]"
  from check_passed assms have go: "Go w self = setup_repos w self ?tr" by simp
  have ext: "extends_by (setup_stage_call w self) ?tr (fst (Go w self))"
    unfolding go by (rule setup_repos_extends)
  then have "reports (fst (Go w self)) = reports ?tr"
    by (rule reports_extends)
  moreover from ext have "take 2 (fst (Go w self)) = ?tr"
    by (auto simp: extends_by_def)
  moreover from check_passed assms have "\<forall>e. check_git_version (strip out) \<noteq> Inl e"
    by simp
  ultimately show ?thesis by simp
qed

theorem version_reported_once_witness:
  "run_cmd (scripted_world ''2.10.0'' all_ok nothing_exists) [] git_version_call
     = Inr (0, ''git version 2.10.0'' @ [newline])
   \<and> reports (fst (Go (scripted_world ''2.10.0'' all_ok nothing_exists) setup0))
         = [(''Git'', ''git version 2.10.0'', TOOL)]
   \<and> Go (scripted_world ''2.10.0'' all_ok nothing_exists) setup0
       = ([Cmd git_version_call (Inr (0, ''git version 2.10.0'' @ [newline])),
           ReportVersion ''Git'' ''git version 2.10.0'' TOOL],
          Inl (RuntimeError ''Please upgrade Git! Current version is 2.10.0. Minimum is 2.11.0.''))"
proof -
  let ?out = "''git version 2.10.0'' @ [newline]"
  have h: "run_cmd (scripted_world ''2.10.0'' all_ok nothing_exists) [] git_version_call
             = Inr (0, ?out)"
    by (simp add: scripted_world_def)
  have s: "strip ?out = ''git version 2.10.0''"
    by (simp add: strip_def is_space_def newline_def)
  have c: "check_git_version (strip ?out)
    = Inl (RuntimeError ''Please upgrade Git! Current version is 2.10.0. Minimum is 2.11.0.'')"
    unfolding s by code_simp
  note t = version_reported_once [OF h, of setup0]
  from t have r: "reports (fst (Go (scripted_world ''2.10.0'' all_ok nothing_exists) setup0))
                    = [(''Git'', strip ?out, TOOL)]"
    by (rule conjunct1)
  from t c have g: "Go (scripted_world ''2.10.0'' all_ok nothing_exists) setup0
       = ([Cmd git_version_call (Inr (0, ?out)), ReportVersion ''Git'' (strip ?out) TOOL],
          Inl (RuntimeError ''Please upgrade Git! Current version is 2.10.0. Minimum is 2.11.0.''))"
    by blast
  show ?thesis
    using h r g unfolding s by (intro conjI)
qed

lemma calls_append: "calls (xs @ ys) = calls xs @ calls ys"
  by (induction xs rule: calls.induct) auto

lemma issues_all: "calls tr' = calls tr @ E \<Longrightarrow> issues tr tr' E"
  by (auto simp: issues_def)

lemma issues_more: "issues tr tr' E \<Longrightarrow> issues tr tr' (E @ E')"
  by (auto simp: issues_def intro: prefix_prefix)

lemma issues_then:
  "calls tr1 = calls tr @ E1 \<Longrightarrow> issues tr1 tr2 E2 \<Longrightarrow> issues tr tr2 (E1 @ E2)"
  by (auto simp: issues_def)

lemma issues_logs: "issues tr tr' E \<Longrightarrow> calls es = [] \<Longrightarrow> issues tr (tr' @ es) E"
  by (auto simp: issues_def calls_append)

lemma clean_root_issues:
  "issues tr (fst (clean_root w self tr)) [root_reset_call self, root_clean_call self]"
  by (auto simp: clean_root_def RunCmd_def issues_def calls_append
           split: sum.splits prod.splits)

lemma clean_root_calls:
  "snd (clean_root w self tr) = Inr u \<Longrightarrow>
   calls (fst (clean_root w self tr)) = calls tr @ [root_reset_call self, root_clean_call self]"
  by (auto simp: clean_root_def RunCmd_def calls_append split: sum.splits prod.splits)

lemma clean_submodules_issues:
  "issues tr (fst (clean_submodules w self sms tr)) (submodule_clean_calls w self sms)"
proof (induction sms arbitrary: tr)
  case Nil
  show ?case by (simp add: issues_def)
next
  case (Cons sm sms)
  let ?r = "submodule_reset_call w self sm" and ?c = "submodule_clean_call w self sm"
  let ?tr0 = "tr @ [Log PROGRESS (''## Cleaning Git repository: '' @ path sm @ ''...'')]"
  let ?tr1 = "?tr0 @ [Cmd ?r (run_cmd w ?tr0 ?r)]"
  let ?tr2 = "?tr1 @ [Cmd ?c (run_cmd w ?tr1 ?c)]"
  let ?tr3 = "?tr2 @ [Log PROGRESS done_msg]"
  have E: "submodule_clean_calls w self (sm # sms) = [?r, ?c] @ submodule_clean_calls w self sms"
    by (simp add: submodule_clean_calls_def)
  have i1: "issues tr ?tr1 (submodule_clean_calls w self (sm # sms))"
    unfolding E by (auto simp: issues_def calls_append)
  have i2: "issues tr ?tr2 (submodule_clean_calls w self (sm # sms))"
    unfolding E by (auto simp: issues_def calls_append)
  have c3: "calls ?tr3 = calls tr @ [?r, ?c]"
    by (simp add: calls_append)
  have i3: "issues tr (fst (clean_submodules w self sms ?tr3)) (submodule_clean_calls w self (sm # sms))"
    unfolding E by (rule issues_then [OF c3 Cons.IH])
  show ?case
    using i1 i2 i3 by (auto simp: RunCmd_def split: sum.splits prod.splits)
qed

lemma clean_submodules_calls:
  "snd (clean_submodules w self sms tr) = Inr u \<Longrightarrow>
   calls (fst (clean_submodules w self sms tr)) = calls tr @ submodule_clean_calls w self sms"
proof (induction sms arbitrary: tr)
  case Nil
  show ?case by (simp add: submodule_clean_calls_def)
next
  case (Cons sm sms)
  let ?r = "submodule_reset_call w self sm" and ?c = "submodule_clean_call w self sm"
  let ?tr0 = "tr @ [Log PROGRESS (''## Cleaning Git repository: '' @ path sm @ ''...'')]"
  let ?tr1 = "?tr0 @ [Cmd ?r (run_cmd w ?tr0 ?r)]"
  let ?tr2 = "?tr1 @ [Cmd ?c (run_cmd w ?tr1 ?c)]"
  let ?tr3 = "?tr2 @ [Log PROGRESS done_msg]"
  have E: "submodule_clean_calls w self (sm # sms) = [?r, ?c] @ submodule_clean_calls w self sms"
    by (simp add: submodule_clean_calls_def)
  from Cons.prems have step: "clean_submodules w self (sm # sms) tr = clean_submodules w self sms ?tr3"
    by (auto simp: RunCmd_def split: sum.splits prod.splits)
  with Cons.prems have "snd (clean_submodules w self sms ?tr3) = Inr u" by simp
  then have "calls (fst (clean_submodules w self sms ?tr3))
               = calls ?tr3 @ submodule_clean_calls w self sms"
    by (rule Cons.IH)
  then show ?case
    unfolding step E by (simp add: calls_append)
qed

lemma force_clean_body_issues:
  "issues tr (fst (force_clean_body w self tr)) (force_clean_calls w self)"
proof (cases "clean_root w self tr")
  case (Pair tr1 res)
  have E: "force_clean_calls w self
             = [root_reset_call self, root_clean_call self]
               @ submodule_clean_calls w self (required_submodules self)"
    by (simp add: force_clean_calls_def)
  have i1: "issues tr tr1 (force_clean_calls w self)"
  proof -
    from clean_root_issues [of tr w self] Pair
    have "issues tr tr1 [root_reset_call self, root_clean_call self]" by simp
    from issues_more [OF this] show ?thesis unfolding E .
  qed
  show ?thesis
  proof (cases res)
    case (Inl e)
    with Pair i1 show ?thesis by (simp add: force_clean_body_def)
  next
    case (Inr u)
    with Pair clean_root_calls [of w self tr u]
    have c1: "calls tr1 = calls tr @ [root_reset_call self, root_clean_call self]" by simp
    have "issues tr (fst (clean_submodules w self (required_submodules self) tr1))
            (force_clean_calls w self)"
      unfolding E by (rule issues_then [OF c1 clean_submodules_issues])
    with Pair Inr i1 show ?thesis
      by (simp add: force_clean_body_def)
  qed
qed

lemma force_clean_body_calls:
  assumes "snd (force_clean_body w self tr) = Inr u"
  shows "calls (fst (force_clean_body w self tr)) = calls tr @ force_clean_calls w self"
proof (cases "clean_root w self tr")
  case (Pair tr1 res)
  show ?thesis
  proof (cases res)
    case (Inl e)
    with Pair assms show ?thesis by (simp add: force_clean_body_def)
  next
    case (Inr u')
    with Pair clean_root_calls [of w self tr u']
    have c1: "calls tr1 = calls tr @ [root_reset_call self, root_clean_call self]" by simp
    show ?thesis
    proof (cases "required_submodules self = []")
      case True
      with Pair Inr c1 show ?thesis
        by (simp add: force_clean_body_def force_clean_calls_def submodule_clean_calls_def)
    next
      case False
      with Pair Inr assms
      have "snd (clean_submodules w self (required_submodules self) tr1) = Inr u"
        by (simp add: force_clean_body_def)
      from clean_submodules_calls [OF this] Pair Inr False c1 show ?thesis
        by (simp add: force_clean_body_def force_clean_calls_def)
    qed
  qed
qed

lemma force_clean_issues:
  "issues tr (fst (force_clean w self tr)) (force_clean_calls w self)"
proof -
  have i: "issues tr (fst (force_clean_body w self tr)) (force_clean_calls w self)"
    by (rule force_clean_body_issues)
  show ?thesis
    using i issues_logs [OF i]
    by (auto simp: force_clean_def split: sum.splits prod.splits exn.splits)
qed

lemma force_clean_calls_done:
  assumes "snd (force_clean w self tr) = Inr None"
  shows "calls (fst (force_clean w self tr)) = calls tr @ force_clean_calls w self"
proof -
  from assms obtain u where b: "snd (force_clean_body w self tr) = Inr u"
    and f: "fst (force_clean w self tr) = fst (force_clean_body w self tr)"
    by (auto simp: force_clean_def split: sum.splits prod.splits exn.splits)
  from force_clean_body_calls [OF b] f show ?thesis by simp
qed

lemma sync_repos_calls:
  "calls (fst (sync_repos w self tr)) = calls tr @ [sync_call self]"
  by (auto simp: sync_repos_def RunCmd_def calls_append
           split: sum.splits prod.splits exn.splits)

lemma skip_decision_force:
  "force_it self \<Longrightarrow> skip_decision w self tr sm = (tr, Inr False)"
  by (simp add: skip_decision_def)

lemma fetch_repo_calls:
  "calls (fst (fetch_repo w self tr sm)) = calls tr @ [fetch_call self sm]"
  by (auto simp: fetch_repo_def RunCmd_def calls_append split: sum.splits prod.splits)

lemma submodule_body_force_calls:
  assumes "force_it self"
  shows "calls (fst (submodule_body w self tr sm)) = calls tr @ [fetch_call self sm]"
proof -
  let ?tr0 = "tr @ [Log PROGRESS (''## Checking Git repository: '' @ path sm @ ''...'')]"
  have "calls (fst (fetch_repo w self ?tr0 sm)) = calls tr @ [fetch_call self sm]"
    by (simp add: fetch_repo_calls calls_append)
  with assms show ?thesis
    by (auto simp: submodule_body_def skip_decision_force calls_append
             split: sum.splits prod.splits)
qed

lemma submodule_step_force_calls:
  assumes "force_it self"
  shows "calls (fst (submodule_step w self tr result sm)) = calls tr @ [fetch_call self sm]"
  using submodule_body_force_calls [OF assms, of w tr sm]
  by (auto simp: submodule_step_def calls_append split: sum.splits prod.splits exn.splits)

lemma submodule_loop_force_issues:
  assumes "force_it self"
  shows "issues tr (fst (submodule_loop w self sms tr result)) (map (fetch_call self) sms)"
proof (induction sms arbitrary: tr result)
  case Nil
  show ?case by (simp add: issues_def)
next
  case (Cons sm sms)
  obtain tr1 res where st: "submodule_step w self tr result sm = (tr1, res)"
    by (cases "submodule_step w self tr result sm")
  with submodule_step_force_calls [OF assms, of w tr result sm]
  have c1: "calls tr1 = calls tr @ [fetch_call self sm]" by simp
  have i1: "issues tr tr1 ([fetch_call self sm] @ map (fetch_call self) sms)"
    by (rule issues_more [OF issues_all [OF c1]])
  have i2: "issues tr (fst (submodule_loop w self sms tr1 r'))
              ([fetch_call self sm] @ map (fetch_call self) sms)" for r'
    by (rule issues_then [OF c1 Cons.IH])
  show ?case
    using st i1 i2 by (cases res) auto
qed

lemma submodule_loop_force_calls:
  assumes "force_it self"
  shows "snd (submodule_loop w self sms tr result) = Inr r \<Longrightarrow>
         calls (fst (submodule_loop w self sms tr result)) = calls tr @ map (fetch_call self) sms"
proof (induction sms arbitrary: tr result)
  case Nil
  show ?case by simp
next
  case (Cons sm sms)
  obtain tr1 res where st: "submodule_step w self tr result sm = (tr1, res)"
    by (cases "submodule_step w self tr result sm")
  with submodule_step_force_calls [OF assms, of w tr result sm]
  have c1: "calls tr1 = calls tr @ [fetch_call self sm]" by simp
  show ?case
  proof (cases res)
    case (Inl e)
    with st Cons.prems show ?thesis by simp
  next
    case (Inr r')
    with st Cons.prems have "snd (submodule_loop w self sms tr1 r') = Inr r" by simp
    from Cons.IH [OF this] st Inr c1 show ?thesis by simp
  qed
qed

lemma grab_repos_force_issues:
  assumes "force_it self"
  shows "issues tr (fst (grab_repos w self tr)) (grab_calls self)"
proof (cases "required_submodules self = []")
  case True
  then show ?thesis by (simp add: grab_repos_def issues_def)
next
  case False
  obtain tr1 res where sy: "sync_repos w self tr = (tr1, res)"
    by (cases "sync_repos w self tr")
  with sync_repos_calls [of w self tr] have c1: "calls tr1 = calls tr @ [sync_call self]"
    by simp
  have E: "grab_calls self = [sync_call self] @ map (fetch_call self) (required_submodules self)"
    by (simp add: grab_calls_def)
  have i1: "issues tr tr1 (grab_calls self)"
    unfolding E by (rule issues_more [OF issues_all [OF c1]])
  have i2: "issues tr (fst (submodule_loop w self (required_submodules self) tr1 0))
              (grab_calls self)"
    unfolding E by (rule issues_then [OF c1 submodule_loop_force_issues [OF assms]])
  show ?thesis
    using False sy i1 i2
    by (auto simp: grab_repos_def split: sum.splits option.splits)
qed

lemma setup_repos_force_issues:
  assumes "force_it self"
  shows "issues tr (fst (setup_repos w self tr)) (force_clean_calls w self @ grab_calls self)"
proof -
  obtain tr1 res where fc: "force_clean w self tr = (tr1, res)"
    by (cases "force_clean w self tr")
  from force_clean_issues [of tr w self] fc
  have i0: "issues tr tr1 (force_clean_calls w self)" by simp
  have i1: "issues tr tr1 (force_clean_calls w self @ grab_calls self)"
    by (rule issues_more [OF i0])
  show ?thesis
  proof (cases "res = Inr None")
    case False
    with assms fc i1 show ?thesis
      by (auto simp: setup_repos_def split: sum.splits option.splits)
  next
    case True
    with fc force_clean_calls_done [of w self tr]
    have c1: "calls tr1 = calls tr @ force_clean_calls w self" by simp
    have "issues tr (fst (grab_repos w self tr1)) (force_clean_calls w self @ grab_calls self)"
      by (rule issues_then [OF c1 grab_repos_force_issues [OF assms]])
    with assms fc True show ?thesis
      by (simp add: setup_repos_def)
  qed
qed

lemma Go_force_prefix:
  assumes "force_it self"
  shows "prefix (calls (fst (Go w self))) (forced_run_calls w self)"
proof (cases rule: Go_cases [of w self])
  case (query_raised e)
  then show ?thesis by (simp add: forced_run_calls_def)
next
  case (check_failed rc out e)
  then show ?thesis by (simp add: forced_run_calls_def)
next
  case (check_passed rc out)
  let ?tr = "[Cmd git_version_call (Inr (rc, out)), ReportVersion ''Git'' (strip out) TOOL]"
  from setup_repos_force_issues [OF assms, of ?tr w] check_passed
  show ?thesis
    by (auto simp: issues_def forced_run_calls_def grab_calls_def)
qed

lemma extends_Cmd_mem:
  "extends_by A tr tr' \<Longrightarrow> Cmd c out \<in> set tr' \<Longrightarrow> Cmd c out \<in> set tr \<or> A c"
  by (force simp: extends_by_def list_all_iff)

lemma sync_not_clean_stage: "\<not> clean_stage_call w self (sync_call self)"
  by (auto simp: clean_stage_call_def root_stage_call_def submodule_clean_stage_call_def
        sync_call_def root_reset_call_def root_clean_call_def submodule_reset_call_def
        submodule_clean_call_def)

lemma sync_repos_returned:
  assumes "sync_repos w self tr = (tr1, Inr (Some r))"
  shows "\<exists>m. tr1 = tr @ [Log PROGRESS (''## Syncing Git repositories: '' @ submodule_string self @ ''...''),
                          Cmd (sync_call self) (Inl (RuntimeError m)),
                          Log ERROR failed_msg,
                          Log ERROR ''Error while trying to synchronize the environment!'',
                          Log ERROR m]"
  using assms
  by (auto simp: sync_repos_def RunCmd_def split: sum.splits prod.splits exn.splits)

lemma setup_repos_force_calls:
  assumes force: "force_it self"
    and ret: "snd (setup_repos w self tr) = Inr r"
    and sync: "Cmd (sync_call self) (Inr x) \<in> set (fst (setup_repos w self tr))"
    and fresh: "Cmd (sync_call self) (Inr x) \<notin> set tr"
  shows "calls (fst (setup_repos w self tr))
           = calls tr @ force_clean_calls w self @ grab_calls self"
proof -
  obtain tr1 res where fc: "force_clean w self tr = (tr1, res)"
    by (cases "force_clean w self tr")
  from force_clean_extends [of w self tr] fc
  have "extends_by (clean_stage_call w self) tr tr1" by simp
  from extends_Cmd_mem [OF this] fresh sync_not_clean_stage
  have fresh1: "Cmd (sync_call self) (Inr x) \<notin> set tr1" by blast
  show ?thesis
  proof (cases res)
    case (Inl e)
    with force fc ret show ?thesis by (simp add: setup_repos_def)
  next
    case (Inr ro)
    show ?thesis
    proof (cases ro)
      case (Some r')
      with force fc Inr sync fresh1 show ?thesis by (simp add: setup_repos_def)
    next
      case None
      with fc Inr force_clean_calls_done [of w self tr]
      have c1: "calls tr1 = calls tr @ force_clean_calls w self" by simp
      from force fc Inr None
      have s: "setup_repos w self tr = grab_repos w self tr1" by (simp add: setup_repos_def)
      show ?thesis
      proof (cases "required_submodules self = []")
        case True
        with s sync fresh1 show ?thesis by (simp add: grab_repos_def)
      next
        case False
        obtain tr2 res2 where sy: "sync_repos w self tr1 = (tr2, res2)"
          by (cases "sync_repos w self tr1")
        with sync_repos_calls [of w self tr1] have c2: "calls tr2 = calls tr1 @ [sync_call self]"
          by simp
        show ?thesis
        proof (cases res2)
          case (Inl e)
          with s False sy ret show ?thesis by (simp add: grab_repos_def)
        next
          case (Inr ro2)
          show ?thesis
          proof (cases ro2)
            case (Some r2)
            with sy Inr sync_repos_returned [of w self tr1 tr2 r2]
            obtain m where "tr2 = tr1 @ [Log PROGRESS (''## Syncing Git repositories: '' @ submodule_string self @ ''...''),
                          Cmd (sync_call self) (Inl (RuntimeError m)),
                          Log ERROR failed_msg,
                          Log ERROR ''Error while trying to synchronize the environment!'',
                          Log ERROR m]" by auto
            with fresh1 have "Cmd (sync_call self) (Inr x) \<notin> set tr2" by simp
            with s False sy Inr Some sync show ?thesis by (simp add: grab_repos_def)
          next
            case None
            with s False sy Inr
            have g: "setup_repos w self tr
                       = submodule_loop w self (required_submodules self) tr2 0"
              by (simp add: grab_repos_def)
            with ret have "snd (submodule_loop w self (required_submodules self) tr2 0) = Inr r"
              by simp
            from submodule_loop_force_calls [OF force this] g c1 c2 show ?thesis
              by (simp add: grab_calls_def)
          qed
        qed
      qed
    qed
  qed
qed

lemma Go_force_calls:
  assumes force: "force_it self"
    and ret: "snd (Go w self) = Inr r"
    and sync: "Cmd (sync_call self) (Inr x) \<in> set (fst (Go w self))"
  shows "calls (fst (Go w self)) = forced_run_calls w self"
proof (cases rule: Go_cases [of w self])
  case (query_raised e)
  with ret show ?thesis by simp
next
  case (check_failed rc out e)
  with ret show ?thesis by simp
next
  case (check_passed rc out)
  let ?tr = "[Cmd git_version_call (Inr (rc, out)), ReportVersion ''Git'' (strip out) TOOL]"
  have fresh: "Cmd (sync_call self) (Inr x) \<notin> set ?tr"
    by (simp add: sync_call_def git_version_call_def)
  from check_passed ret sync
  have "snd (setup_repos w self ?tr) = Inr r"
    and "Cmd (sync_call self) (Inr x) \<in> set (fst (setup_repos w self ?tr))"
    by simp_all
  from setup_repos_force_calls [OF force this fresh] check_passed show ?thesis
    by (simp add: forced_run_calls_def grab_calls_def)
qed

lemma prefix_nth: "prefix xs ys \<Longrightarrow> i < length xs \<Longrightarrow> xs ! i = ys ! i"
  by (auto simp: prefix_def nth_append)

lemma Go_forced_ok:
  "Go (scripted_world ''2.39.2'' all_ok nothing_exists) setup_forced =
    ([Cmd (Call ''git'' ''--version'' None True) (Inr (0, ''git version 2.39.2'' @ [newline])),
      ReportVersion ''Git'' ''git version 2.39.2'' TOOL,
      Log PROGRESS ''## Cleaning the root repo...'',
      Cmd (Call ''git'' ''reset --hard'' (Some ''/ws'') True) (Inr (0, [])),
      Cmd (Call ''git'' ''clean -xffd -e Build/SETUPLOG.txt -e Build/SETUPLOG.md'' (Some ''/ws'') True)
        (Inr (0, [])),
      Log PROGRESS (''Done.'' @ [newline]),
      Log PROGRESS ''## Cleaning Git repository: Common/MU...'',
      Cmd (Call ''git'' ''reset --hard'' (Some ''/ws/Common/MU'') True) (Inr (0, [])),
      Cmd (Call ''git'' ''clean -xffd'' (Some ''/ws/Common/MU'') True) (Inr (0, [])),
      Log PROGRESS (''Done.'' @ [newline]),
      Log PROGRESS ''## Cleaning Git repository: Tiano...'',
      Cmd (Call ''git'' ''reset --hard'' (Some ''/ws/Tiano'') True) (Inr (0, [])),
      Cmd (Call ''git'' ''clean -xffd'' (Some ''/ws/Tiano'') True) (Inr (0, [])),
      Log PROGRESS (''Done.'' @ [newline]),
      Log PROGRESS ''## Syncing Git repositories: Common/MU Tiano...'',
      Cmd (Call ''git'' ''submodule sync -- Common/MU Tiano'' (Some ''/ws'') True) (Inr (0, [])),
      Log PROGRESS (''Done.'' @ [newline]),
      Log PROGRESS ''## Checking Git repository: Common/MU...'',
      Log INFO ''## Fetching repo.'',
      Cmd (Call ''git'' ''submodule update --init --recursive --progress Common/MU'' (Some ''/ws'') False)
        (Inr (0, [])),
      Log PROGRESS (''Done.'' @ [newline]),
      Log PROGRESS ''## Checking Git repository: Tiano...'',
      Log INFO ''## Fetching repo.'',
      Cmd (Call ''git'' ''submodule update --init --progress Tiano'' (Some ''/ws'') False)
        (Inr (0, [])),
      Log PROGRESS (''Done.'' @ [newline])],
     Inr 0)"
  by code_simp

lemma Go_forced_reset_fails:
  "Go (scripted_world ''2.39.2'' reset_fails nothing_exists) setup_forced =
    ([Cmd (Call ''git'' ''--version'' None True) (Inr (0, ''git version 2.39.2'' @ [newline])),
      ReportVersion ''Git'' ''git version 2.39.2'' TOOL,
      Log PROGRESS ''## Cleaning the root repo...'',
      Cmd (Call ''git'' ''reset --hard'' (Some ''/ws'') True)
        (Inl (RuntimeError ''git reset --hard failed with error code 128'')),
      Log ERROR (''FAILED!'' @ [newline]),
      Log ERROR ''Error while trying to clean the environment!'',
      Log ERROR ''git reset --hard failed with error code 128''],
     Inr (- 1))"
  by code_simp

text \<open>
  Claim C9. In a run with \<open>force\<close> set, the second subprocess call after the version query
  is the forced recursive clean of the workspace root, and it names both log files of the
  invocable as exclusions: \<open>-e Build/SETUPLOG.txt -e Build/SETUPLOG.md\<close>, where
  \<open>SETUPLOG\<close> is what \<open>GetLoggingFileName\<close> returns for either variant. Every other clean
  of the run is one of the submodule cleans, issued in the resolved directory of a required
  submodule.
\<close>

theorem root_clean_excludes_logs:
  assumes "force_it self" and "2 < length (calls (fst (Go w self)))"
  shows "calls (fst (Go w self)) ! 1
           = Call ''git'' ''reset --hard'' (Some (workspace_path self)) True
       \<and> calls (fst (Go w self)) ! 2
           = Call ''git'' ''clean -xffd -e Build/SETUPLOG.txt -e Build/SETUPLOG.md''
               (Some (workspace_path self)) True
       \<and> GetLoggingFileName ''txt'' = ''SETUPLOG'' \<and> GetLoggingFileName ''md'' = ''SETUPLOG''
       \<and> (\<forall>c\<in>set (calls (fst (Go w self))). prefix ''clean'' (parameters c) \<longrightarrow>
             c = Call ''git'' ''clean -xffd -e Build/SETUPLOG.txt -e Build/SETUPLOG.md''
                   (Some (workspace_path self)) True
             \<or> (\<exists>sm\<in>set (required_submodules self).
                   c = Call ''git'' ''clean -xffd''
                         (Some (normjoin w (workspace_path self) (path sm))) True))"
proof -
  have p: "prefix (calls (fst (Go w self))) (forced_run_calls w self)"
    by (rule Go_force_prefix [OF assms(1)])
  have n1: "calls (fst (Go w self)) ! 1 = forced_run_calls w self ! 1"
    using assms(2) by (intro prefix_nth [OF p]) simp
  have n2: "calls (fst (Go w self)) ! 2 = forced_run_calls w self ! 2"
    using assms(2) by (intro prefix_nth [OF p]) simp
  have e1: "forced_run_calls w self ! 1
              = Call ''git'' ''reset --hard'' (Some (workspace_path self)) True"
    by (simp add: forced_run_calls_def force_clean_calls_def root_reset_call_def)
  have e2: "forced_run_calls w self ! 2
              = Call ''git'' ''clean -xffd -e Build/SETUPLOG.txt -e Build/SETUPLOG.md''
                  (Some (workspace_path self)) True"
    by (simp add: forced_run_calls_def force_clean_calls_def root_clean_call_def
          ignore_files_def GetLoggingFileName_def)
  have cl: "c = Call ''git'' ''clean -xffd -e Build/SETUPLOG.txt -e Build/SETUPLOG.md''
                   (Some (workspace_path self)) True
             \<or> (\<exists>sm\<in>set (required_submodules self).
                   c = Call ''git'' ''clean -xffd''
                         (Some (normjoin w (workspace_path self) (path sm))) True)"
    if "c \<in> set (calls (fst (Go w self)))" and "prefix ''clean'' (parameters c)" for c
  proof -
    from that(1) set_mono_prefix [OF p] have "c \<in> set (forced_run_calls w self)" by blast
    with that(2) show ?thesis
      by (auto simp: forced_run_calls_def force_clean_calls_def submodule_clean_calls_def
            git_version_call_def root_reset_call_def root_clean_call_def
            submodule_reset_call_def submodule_clean_call_def sync_call_def fetch_call_def
            cmd_string_def ignore_files_def GetLoggingFileName_def)
  qed
  from n1 n2 e1 e2 cl show ?thesis
    by (simp add: GetLoggingFileName_def)
qed

theorem root_clean_excludes_logs_witness:
  "force_it setup_forced
   \<and> 2 < length (calls (fst (Go (scripted_world ''2.39.2'' all_ok nothing_exists) setup_forced)))
   \<and> calls (fst (Go (scripted_world ''2.39.2'' all_ok nothing_exists) setup_forced)) ! 2
       = Call ''git'' ''clean -xffd -e Build/SETUPLOG.txt -e Build/SETUPLOG.md''
           (Some (workspace_path setup_forced)) True"
proof -
  have f: "force_it setup_forced"
    by (simp add: setup_forced_def)
  have l: "2 < length (calls (fst (Go (scripted_world ''2.39.2'' all_ok nothing_exists) setup_forced)))"
    by (simp add: Go_forced_ok)
  from root_clean_excludes_logs [OF f l] f l show ?thesis
    by blast
qed

lemma stage_events_calls:
  "list_all (stage_event A) es \<Longrightarrow> c \<in> set (calls es) \<Longrightarrow> A c"
  by (induction es rule: calls.induct) auto

lemma extends_calls_mem:
  assumes "extends_by A tr tr'" and "c \<in> set (calls tr')"
  shows "c \<in> set (calls tr) \<or> A c"
proof -
  from assms(1) obtain new where n: "tr' = tr @ new" "list_all (stage_event A) new"
    by (auto simp: extends_by_def)
  from assms(2) n(1) have "c \<in> set (calls tr) \<or> c \<in> set (calls new)"
    by (simp add: calls_append)
  with stage_events_calls [OF n(2)] show ?thesis by blast
qed

lemma Go_calls_mem:
  assumes "c \<in> set (calls (fst (Go w self)))"
  shows "c = git_version_call \<or> setup_stage_call w self c"
proof (cases rule: Go_cases [of w self])
  case (query_raised e)
  with assms show ?thesis by simp
next
  case (check_failed rc out e)
  with assms show ?thesis by simp
next
  case (check_passed rc out)
  let ?tr = "[Cmd git_version_call (Inr (rc, out)), ReportVersion ''Git'' (strip out) TOOL]"
  from check_passed assms have "c \<in> set (calls (fst (setup_repos w self ?tr)))" by simp
  from extends_calls_mem [OF setup_repos_extends this] show ?thesis by simp
qed

lemma Go_plain_ok:
  "Go (scripted_world ''2.39.2'' all_ok nothing_exists) setup0 =
    ([Cmd (Call ''git'' ''--version'' None True) (Inr (0, ''git version 2.39.2'' @ [newline])),
      ReportVersion ''Git'' ''git version 2.39.2'' TOOL,
      Log PROGRESS ''## Syncing Git repositories: Common/MU Tiano...'',
      Cmd (Call ''git'' ''submodule sync -- Common/MU Tiano'' (Some ''/ws'') True) (Inr (0, [])),
      Log PROGRESS (''Done.'' @ [newline]),
      Log PROGRESS ''## Checking Git repository: Common/MU...'',
      Log INFO ''## Fetching repo.'',
      Cmd (Call ''git'' ''submodule update --init --recursive --progress Common/MU'' (Some ''/ws'') False)
        (Inr (0, [])),
      Log PROGRESS (''Done.'' @ [newline]),
      Log PROGRESS ''## Checking Git repository: Tiano...'',
      Log INFO ''## Fetching repo.'',
      Cmd (Call ''git'' ''submodule update --init --progress Tiano'' (Some ''/ws'') False)
        (Inr (0, [])),
      Log PROGRESS (''Done.'' @ [newline])],
     Inr 0)"
  by code_simp

lemma Go_omni_ok:
  "Go (scripted_world ''2.39.2'' all_ok everything_exists) setup_omni =
    ([Cmd (Call ''git'' ''--version'' None True) (Inr (0, ''git version 2.39.2'' @ [newline])),
      ReportVersion ''Git'' ''git version 2.39.2'' TOOL,
      Log PROGRESS ''## Syncing Git repositories: Common/MU Tiano...'',
      Cmd (Call ''git'' ''submodule sync -- Common/MU Tiano'' (Some ''/ws'') True) (Inr (0, [])),
      Log PROGRESS (''Done.'' @ [newline]),
      Log PROGRESS ''## Checking Git repository: Common/MU...'',
      Cmd (Call ''git'' ''diff Common/MU'' (Some ''/ws'') True) (Inr (0, [])),
      Log INFO ''## Fetching repo.'',
      Cmd (Call ''git''
             ''submodule update --init --recursive --progress --reference /omnicache Common/MU''
             (Some ''/ws'') False)
        (Inr (0, [])),
      Log PROGRESS (''Done.'' @ [newline]),
      Log PROGRESS ''## Checking Git repository: Tiano...'',
      Cmd (Call ''git'' ''diff Tiano'' (Some ''/ws'') True) (Inr (0, [])),
      Log INFO ''## Fetching repo.'',
      Cmd (Call ''git'' ''submodule update --init --progress --reference /omnicache Tiano''
             (Some ''/ws'') False)
        (Inr (0, [])),
      Log PROGRESS (''Done.'' @ [newline])],
     Inr 0)"
  by code_simp

lemma Go_dirty:
  "Go (scripted_world ''2.39.2'' dirty_diff everything_exists) setup0 =
    ([Cmd (Call ''git'' ''--version'' None True) (Inr (0, ''git version 2.39.2'' @ [newline])),
      ReportVersion ''Git'' ''git version 2.39.2'' TOOL,
      Log PROGRESS ''## Syncing Git repositories: Common/MU Tiano...'',
      Cmd (Call ''git'' ''submodule sync -- Common/MU Tiano'' (Some ''/ws'') True) (Inr (0, [])),
      Log PROGRESS (''Done.'' @ [newline]),
      Log PROGRESS ''## Checking Git repository: Common/MU...'',
      Cmd (Call ''git'' ''diff Common/MU'' (Some ''/ws'') True)
        (Inr (0, ''diff --git a/Readme.md b/Readme.md'' @ [newline])),
      Log INFO ''-- NOTE: Repo currently exists and appears to have local changes!'',
      Log INFO ''-- Skipping fetch!'',
      Log PROGRESS (''Done.'' @ [newline]),
      Log PROGRESS ''## Checking Git repository: Tiano...'',
      Cmd (Call ''git'' ''diff Tiano'' (Some ''/ws'') True)
        (Inr (0, ''diff --git a/Readme.md b/Readme.md'' @ [newline])),
      Log INFO ''-- NOTE: Repo currently exists and appears to have local changes!'',
      Log INFO ''-- Skipping fetch!'',
      Log PROGRESS (''Done.'' @ [newline])],
     Inr 0)"
  by code_simp

text \<open>
  Claim C4. Without \<open>force\<close>, let the resolved path of a submodule exist when the loop
  reaches it, and let \<open>git diff <path>\<close> return output that is not blank. Then the
  iteration logs the check, runs the diff, logs the two skip notes at INFO level and
  \<open>Done.\<close>, issues no \<open>submodule update\<close> command, raises nothing, and leaves \<open>result\<close> as
  it was; the loop goes on with the next entry.
\<close>

theorem dirty_submodule_skipped:
  assumes "\<not> force_it self"
    and "path_exists w (tr @ [Log PROGRESS (''## Checking Git repository: '' @ path sm @ ''...'')])
           (normjoin w (workspace_path self) (path sm))"
    and "run_cmd w (tr @ [Log PROGRESS (''## Checking Git repository: '' @ path sm @ ''...'')])
           (Call ''git'' (''diff '' @ path sm) (Some (workspace_path self)) True) = Inr (rc, out)"
    and "strip out \<noteq> []"
  shows "submodule_step w self tr result sm
           = (tr @ [Log PROGRESS (''## Checking Git repository: '' @ path sm @ ''...''),
                    Cmd (Call ''git'' (''diff '' @ path sm) (Some (workspace_path self)) True)
                      (Inr (rc, out)),
                    Log INFO ''-- NOTE: Repo currently exists and appears to have local changes!'',
                    Log INFO ''-- Skipping fetch!'',
                    Log PROGRESS (''Done.'' @ [newline])],
              Inr result)
       \<and> submodule_loop w self (sm # sms) tr result
           = submodule_loop w self sms
               (tr @ [Log PROGRESS (''## Checking Git repository: '' @ path sm @ ''...''),
                      Cmd (Call ''git'' (''diff '' @ path sm) (Some (workspace_path self)) True)
                        (Inr (rc, out)),
                      Log INFO ''-- NOTE: Repo currently exists and appears to have local changes!'',
                      Log INFO ''-- Skipping fetch!'',
                      Log PROGRESS (''Done.'' @ [newline])])
               result"
proof -
  let ?tr0 = "tr @ [Log PROGRESS (''## Checking Git repository: '' @ path sm @ ''...'')]"
  let ?d = "Call ''git'' (''diff '' @ path sm) (Some (workspace_path self)) True"
  from assms have sk: "skip_decision w self ?tr0 sm
      = (?tr0 @ [Cmd ?d (Inr (rc, out)),
                 Log INFO ''-- NOTE: Repo currently exists and appears to have local changes!'',
                 Log INFO ''-- Skipping fetch!''], Inr True)"
    by (simp add: skip_decision_def RunCmd_def diff_call_def)
  from assms(1) have bd: "submodule_body w self tr sm
      = (?tr0 @ [Cmd ?d (Inr (rc, out)),
                 Log INFO ''-- NOTE: Repo currently exists and appears to have local changes!'',
                 Log INFO ''-- Skipping fetch!'',
                 Log PROGRESS (''Done.'' @ [newline])], Inr ())"
    unfolding submodule_body_def sk by (simp add: done_msg_def)
  have st: "submodule_step w self tr result sm
      = (tr @ [Log PROGRESS (''## Checking Git repository: '' @ path sm @ ''...''),
               Cmd ?d (Inr (rc, out)),
               Log INFO ''-- NOTE: Repo currently exists and appears to have local changes!'',
               Log INFO ''-- Skipping fetch!'',
               Log PROGRESS (''Done.'' @ [newline])], Inr result)"
    unfolding submodule_step_def bd by simp
  then show ?thesis by simp
qed

theorem dirty_submodule_skipped_witness:
  "\<not> force_it setup0
   \<and> path_exists (scripted_world ''2.39.2'' dirty_diff everything_exists)
       ([] @ [Log PROGRESS (''## Checking Git repository: '' @ path mu @ ''...'')])
       (normjoin (scripted_world ''2.39.2'' dirty_diff everything_exists)
          (workspace_path setup0) (path mu))
   \<and> strip (''diff --git a/Readme.md b/Readme.md'' @ [newline]) \<noteq> []
   \<and> submodule_step (scripted_world ''2.39.2'' dirty_diff everything_exists) setup0 [] 0 mu
       = ([Log PROGRESS ''## Checking Git repository: Common/MU...'',
           Cmd (Call ''git'' ''diff Common/MU'' (Some ''/ws'') True)
             (Inr (0, ''diff --git a/Readme.md b/Readme.md'' @ [newline])),
           Log INFO ''-- NOTE: Repo currently exists and appears to have local changes!'',
           Log INFO ''-- Skipping fetch!'',
           Log PROGRESS (''Done.'' @ [newline])],
          Inr 0)
   \<and> snd (Go (scripted_world ''2.39.2'' dirty_diff everything_exists) setup0) = Inr 0"
proof -
  let ?w = "scripted_world ''2.39.2'' dirty_diff everything_exists"
  let ?out = "''diff --git a/Readme.md b/Readme.md'' @ [newline]"
  have f: "\<not> force_it setup0"
    by (simp add: setup0_def)
  have e: "path_exists ?w ([] @ [Log PROGRESS (''## Checking Git repository: '' @ path mu @ ''...'')])
             (normjoin ?w (workspace_path setup0) (path mu))"
    by (simp add: scripted_world_def everything_exists_def)
  have d: "run_cmd ?w ([] @ [Log PROGRESS (''## Checking Git repository: '' @ path mu @ ''...'')])
             (Call ''git'' (''diff '' @ path mu) (Some (workspace_path setup0)) True)
           = Inr (0, ?out)"
    by (simp add: scripted_world_def dirty_diff_def git_version_call_def)
  have s: "strip ?out \<noteq> []"
    by (simp add: strip_def is_space_def newline_def)
  from dirty_submodule_skipped [OF f e d s, of 0 "[]"]
  have "submodule_step ?w setup0 [] 0 mu
          = ([] @ [Log PROGRESS (''## Checking Git repository: '' @ path mu @ ''...''),
                   Cmd (Call ''git'' (''diff '' @ path mu) (Some (workspace_path setup0)) True)
                     (Inr (0, ?out)),
                   Log INFO ''-- NOTE: Repo currently exists and appears to have local changes!'',
                   Log INFO ''-- Skipping fetch!'',
                   Log PROGRESS (''Done.'' @ [newline])],
             Inr 0)"
    by (rule conjunct1)
  then have st: "submodule_step ?w setup0 [] 0 mu
       = ([Log PROGRESS ''## Checking Git repository: Common/MU...'',
           Cmd (Call ''git'' ''diff Common/MU'' (Some ''/ws'') True) (Inr (0, ?out)),
           Log INFO ''-- NOTE: Repo currently exists and appears to have local changes!'',
           Log INFO ''-- Skipping fetch!'',
           Log PROGRESS (''Done.'' @ [newline])],
          Inr 0)"
    by (simp add: mu_def setup0_def)
  have g: "snd (Go ?w setup0) = Inr 0"
    by (simp add: Go_dirty)
  from f e s st g show ?thesis
    by (intro conjI)
qed

lemma fetch_not_diff: "fetch_call self b \<noteq> diff_call self sm"
  by (simp add: fetch_call_def diff_call_def cmd_string_def)

lemma skip_decision_cases:
  obtains (not_checked)
      "skip_decision w self tr sm = (tr, Inr False)"
  | (diff_call_raised) e where
      "skip_decision w self tr sm = (tr @ [Cmd (diff_call self sm) (Inl e)], Inl e)"
  | (dirty) rc out where
      "strip out \<noteq> []"
      "skip_decision w self tr sm
         = (tr @ [Cmd (diff_call self sm) (Inr (rc, out)),
                  Log INFO ''-- NOTE: Repo currently exists and appears to have local changes!'',
                  Log INFO ''-- Skipping fetch!''], Inr True)"
  | (clean) rc out where
      "strip out = []"
      "skip_decision w self tr sm = (tr @ [Cmd (diff_call self sm) (Inr (rc, out))], Inr False)"
proof (cases "path_exists w tr (normjoin w (workspace_path self) (path sm)) \<and> \<not> force_it self")
  case False
  then have "skip_decision w self tr sm = (tr, Inr False)"
    by (auto simp: skip_decision_def)
  then show ?thesis by (rule not_checked)
next
  case True
  show ?thesis
  proof (cases "run_cmd w tr (diff_call self sm)")
    case (Inl e)
    with True have "skip_decision w self tr sm = (tr @ [Cmd (diff_call self sm) (Inl e)], Inl e)"
      by (simp add: skip_decision_def RunCmd_def)
    then show ?thesis by (rule diff_call_raised)
  next
    case (Inr p)
    obtain rc out where p: "p = (rc, out)" by (cases p)
    show ?thesis
    proof (cases "strip out = []")
      case False
      with True Inr p have "skip_decision w self tr sm
         = (tr @ [Cmd (diff_call self sm) (Inr (rc, out)),
                  Log INFO ''-- NOTE: Repo currently exists and appears to have local changes!'',
                  Log INFO ''-- Skipping fetch!''], Inr True)"
        by (simp add: skip_decision_def RunCmd_def)
      with False show ?thesis by (rule dirty)
    next
      case e: True
      with True Inr p have "skip_decision w self tr sm
         = (tr @ [Cmd (diff_call self sm) (Inr (rc, out))], Inr False)"
        by (simp add: skip_decision_def RunCmd_def)
      with e show ?thesis by (rule clean)
    qed
  qed
qed

lemma fetch_repo_cases:
  obtains (fetch_call_raised) e where
      "fetch_repo w self tr sm
         = (tr @ [Log INFO ''## Fetching repo.'', Cmd (fetch_call self sm) (Inl e)], Inl e)"
  | (fetch_nonzero) rc out where
      "rc \<noteq> 0"
      "fetch_repo w self tr sm
         = (tr @ [Log INFO ''## Fetching repo.'', Cmd (fetch_call self sm) (Inr (rc, out)),
                  Log ERROR (''Failed to fetch '' @ path sm)],
            Inl (RuntimeError ''Unable to checkout repo due to error''))"
  | (fetch_zero) out where
      "fetch_repo w self tr sm
         = (tr @ [Log INFO ''## Fetching repo.'', Cmd (fetch_call self sm) (Inr (0, out))],
            Inr ())"
proof (cases "run_cmd w (tr @ [Log INFO ''## Fetching repo.'']) (fetch_call self sm)")
  case (Inl e)
  then have "fetch_repo w self tr sm
         = (tr @ [Log INFO ''## Fetching repo.'', Cmd (fetch_call self sm) (Inl e)], Inl e)"
    by (simp add: fetch_repo_def RunCmd_def)
  then show ?thesis by (rule fetch_call_raised)
next
  case (Inr p)
  obtain rc out where p: "p = (rc, out)" by (cases p)
  show ?thesis
  proof (cases "rc = 0")
    case True
    with Inr p have "fetch_repo w self tr sm
         = (tr @ [Log INFO ''## Fetching repo.'', Cmd (fetch_call self sm) (Inr (0, out))],
            Inr ())"
      by (simp add: fetch_repo_def RunCmd_def)
    then show ?thesis by (rule fetch_zero)
  next
    case False
    with Inr p have "fetch_repo w self tr sm
         = (tr @ [Log INFO ''## Fetching repo.'', Cmd (fetch_call self sm) (Inr (rc, out)),
                  Log ERROR (''Failed to fetch '' @ path sm)],
            Inl (RuntimeError ''Unable to checkout repo due to error''))"
      by (simp add: fetch_repo_def RunCmd_def)
    with False show ?thesis by (rule fetch_nonzero)
  qed
qed

lemma submodule_body_unfold:
  "submodule_body w self tr sm =
     (case skip_decision w self (tr @ [Log PROGRESS (checking_msg sm)]) sm of
        (tr1, Inl e) \<Rightarrow> (tr1, Inl e)
      | (tr1, Inr skip_repo) \<Rightarrow>
          (if \<not> skip_repo \<or> force_it self
           then (case fetch_repo w self tr1 sm of
                   (tr2, Inl e) \<Rightarrow> (tr2, Inl e)
                 | (tr2, Inr _) \<Rightarrow> (tr2 @ [Log PROGRESS done_msg], Inr ()))
           else (tr1 @ [Log PROGRESS done_msg], Inr ())))"
  unfolding submodule_body_def checking_msg_def by (rule refl)

text \<open>The body of the \<open>try\<close>: the events it adds and how it ends.\<close>

lemma submodule_body_cases:
  obtains (diff_raised) e where
      "submodule_body w self tr sm
         = (tr @ [Log PROGRESS (checking_msg sm), Cmd (diff_call self sm) (Inl e)], Inl e)"
  | (skipped) rc out where
      "strip out \<noteq> []"
      "submodule_body w self tr sm
         = (tr @ [Log PROGRESS (checking_msg sm),
                  Cmd (diff_call self sm) (Inr (rc, out)),
                  Log INFO ''-- NOTE: Repo currently exists and appears to have local changes!'',
                  Log INFO ''-- Skipping fetch!'',
                  Log PROGRESS done_msg], Inr ())"
  | (fetch_raised) pre e where
      "clean_check self sm pre"
      "submodule_body w self tr sm
         = (tr @ Log PROGRESS (checking_msg sm) # pre
               @ [Log INFO ''## Fetching repo.'', Cmd (fetch_call self sm) (Inl e)], Inl e)"
  | (fetch_failed) pre rc out where
      "clean_check self sm pre" "rc \<noteq> 0"
      "submodule_body w self tr sm
         = (tr @ Log PROGRESS (checking_msg sm) # pre
               @ [Log INFO ''## Fetching repo.'', Cmd (fetch_call self sm) (Inr (rc, out)),
                  Log ERROR (''Failed to fetch '' @ path sm)],
            Inl (RuntimeError ''Unable to checkout repo due to error''))"
  | (fetched) pre out where
      "clean_check self sm pre"
      "submodule_body w self tr sm
         = (tr @ Log PROGRESS (checking_msg sm) # pre
               @ [Log INFO ''## Fetching repo.'', Cmd (fetch_call self sm) (Inr (0, out)),
                  Log PROGRESS done_msg], Inr ())"
proof -
  let ?tr0 = "tr @ [Log PROGRESS (checking_msg sm)]"
  have fetch: thesis
    if sk: "skip_decision w self ?tr0 sm = (?tr0 @ pre, Inr False)"
      and pre: "clean_check self sm pre" for pre
  proof (cases rule: fetch_repo_cases [of w self "tr @ Log PROGRESS (checking_msg sm) # pre" sm])
    case (fetch_call_raised e)
    have "submodule_body w self tr sm
         = (tr @ Log PROGRESS (checking_msg sm) # pre
               @ [Log INFO ''## Fetching repo.'', Cmd (fetch_call self sm) (Inl e)], Inl e)"
      by (simp add: submodule_body_unfold sk fetch_call_raised)
    with pre show ?thesis by (rule fetch_raised)
  next
    case (fetch_nonzero rc out)
    have "submodule_body w self tr sm
         = (tr @ Log PROGRESS (checking_msg sm) # pre
               @ [Log INFO ''## Fetching repo.'', Cmd (fetch_call self sm) (Inr (rc, out)),
                  Log ERROR (''Failed to fetch '' @ path sm)],
            Inl (RuntimeError ''Unable to checkout repo due to error''))"
      by (simp add: submodule_body_unfold sk fetch_nonzero)
    with pre fetch_nonzero(1) show ?thesis by (rule fetch_failed)
  next
    case (fetch_zero out)
    have "submodule_body w self tr sm
         = (tr @ Log PROGRESS (checking_msg sm) # pre
               @ [Log INFO ''## Fetching repo.'', Cmd (fetch_call self sm) (Inr (0, out)),
                  Log PROGRESS done_msg], Inr ())"
      by (simp add: submodule_body_unfold sk fetch_zero)
    with pre show ?thesis by (rule fetched)
  qed
  show thesis
  proof (cases rule: skip_decision_cases [of w self ?tr0 sm])
    case not_checked
    then have "skip_decision w self ?tr0 sm = (?tr0 @ [], Inr False)" by simp
    moreover have "clean_check self sm []" by (simp add: clean_check_def)
    ultimately show ?thesis by (rule fetch)
  next
    case (diff_call_raised e)
    have "submodule_body w self tr sm
         = (tr @ [Log PROGRESS (checking_msg sm), Cmd (diff_call self sm) (Inl e)], Inl e)"
      by (simp add: submodule_body_unfold diff_call_raised)
    then show ?thesis by (rule diff_raised)
  next
    case (dirty rc out)
    have nf: "\<not> force_it self"
    proof
      assume "force_it self"
      then have "skip_decision w self ?tr0 sm = (?tr0, Inr False)"
        by (simp add: skip_decision_def)
      with dirty(2) show False by simp
    qed
    have "submodule_body w self tr sm
         = (tr @ [Log PROGRESS (checking_msg sm),
                  Cmd (diff_call self sm) (Inr (rc, out)),
                  Log INFO ''-- NOTE: Repo currently exists and appears to have local changes!'',
                  Log INFO ''-- Skipping fetch!'',
                  Log PROGRESS done_msg], Inr ())"
      using nf by (simp add: submodule_body_unfold dirty(2))
    with dirty(1) show ?thesis by (rule skipped)
  next
    case (clean rc out)
    have "clean_check self sm [Cmd (diff_call self sm) (Inr (rc, out))]"
      using clean(1) by (simp add: clean_check_def)
    with clean(2) show ?thesis by (rule fetch)
  qed
qed

lemma submodule_step_caught:
  "submodule_body w self tr sm = (tr1, Inl (RuntimeError m)) \<Longrightarrow>
   submodule_step w self tr result sm = (tr1 @ fetch_handler_logs m, Inr (-1))"
  by (simp add: submodule_step_def fetch_handler_logs_def)

lemma submodule_step_escaped:
  "submodule_body w self tr sm = (tr1, Inl e) \<Longrightarrow> \<forall>m. e \<noteq> RuntimeError m \<Longrightarrow>
   submodule_step w self tr result sm = (tr1, Inl e)"
  by (cases e) (simp_all add: submodule_step_def)

lemma submodule_step_returned:
  "submodule_body w self tr sm = (tr1, Inr u) \<Longrightarrow>
   submodule_step w self tr result sm = (tr1, Inr result)"
  by (simp add: submodule_step_def)

text \<open>One iteration with its handler: the events it adds and how it ends.\<close>

lemma submodule_step_cases:
  obtains (diff_caught) m where
      "submodule_step w self tr result sm
         = (tr @ [Log PROGRESS (checking_msg sm), Cmd (diff_call self sm) (Inl (RuntimeError m))]
               @ fetch_handler_logs m, Inr (-1))"
  | (diff_escaped) e where
      "\<forall>m. e \<noteq> RuntimeError m"
      "submodule_step w self tr result sm
         = (tr @ [Log PROGRESS (checking_msg sm), Cmd (diff_call self sm) (Inl e)], Inl e)"
  | (skipped) rc out where
      "strip out \<noteq> []"
      "submodule_step w self tr result sm
         = (tr @ [Log PROGRESS (checking_msg sm),
                  Cmd (diff_call self sm) (Inr (rc, out)),
                  Log INFO ''-- NOTE: Repo currently exists and appears to have local changes!'',
                  Log INFO ''-- Skipping fetch!'',
                  Log PROGRESS done_msg], Inr result)"
  | (fetch_caught) pre m where
      "clean_check self sm pre"
      "submodule_step w self tr result sm
         = (tr @ Log PROGRESS (checking_msg sm) # pre
               @ [Log INFO ''## Fetching repo.'', Cmd (fetch_call self sm) (Inl (RuntimeError m))]
               @ fetch_handler_logs m, Inr (-1))"
  | (fetch_escaped) pre e where
      "clean_check self sm pre" "\<forall>m. e \<noteq> RuntimeError m"
      "submodule_step w self tr result sm
         = (tr @ Log PROGRESS (checking_msg sm) # pre
               @ [Log INFO ''## Fetching repo.'', Cmd (fetch_call self sm) (Inl e)], Inl e)"
  | (fetch_failed) pre rc out where
      "clean_check self sm pre" "rc \<noteq> 0"
      "submodule_step w self tr result sm
         = (tr @ Log PROGRESS (checking_msg sm) # pre
               @ [Log INFO ''## Fetching repo.'', Cmd (fetch_call self sm) (Inr (rc, out)),
                  Log ERROR (''Failed to fetch '' @ path sm)]
               @ fetch_handler_logs ''Unable to checkout repo due to error'', Inr (-1))"
  | (fetched) pre out where
      "clean_check self sm pre"
      "submodule_step w self tr result sm
         = (tr @ Log PROGRESS (checking_msg sm) # pre
               @ [Log INFO ''## Fetching repo.'', Cmd (fetch_call self sm) (Inr (0, out)),
                  Log PROGRESS done_msg], Inr result)"
proof (cases rule: submodule_body_cases [of w self tr sm])
  case (diff_raised e)
  show ?thesis
  proof (cases "\<exists>m. e = RuntimeError m")
    case True
    then obtain m where m: "e = RuntimeError m" by blast
    from submodule_step_caught [OF diff_raised [unfolded m], of result]
    show ?thesis by (intro diff_caught [of m]) simp
  next
    case False
    then have ne: "\<forall>m. e \<noteq> RuntimeError m" by blast
    from submodule_step_escaped [OF diff_raised ne, of result] ne
    show ?thesis by (intro diff_escaped [of e]) simp_all
  qed
next
  case (skipped rc out)
  from submodule_step_returned [OF skipped(2), of result] skipped(1)
  show ?thesis by (intro that(3) [of out rc]) simp_all
next
  case (fetch_raised pre e)
  show ?thesis
  proof (cases "\<exists>m. e = RuntimeError m")
    case True
    then obtain m where m: "e = RuntimeError m" by blast
    from submodule_step_caught [OF fetch_raised(2) [unfolded m], of result] fetch_raised(1)
    show ?thesis by (intro fetch_caught [of pre m]) simp_all
  next
    case False
    then have ne: "\<forall>m. e \<noteq> RuntimeError m" by blast
    from submodule_step_escaped [OF fetch_raised(2) ne, of result] ne fetch_raised(1)
    show ?thesis by (intro fetch_escaped [of pre e]) simp_all
  qed
next
  case (fetch_failed pre rc out)
  from submodule_step_caught [OF fetch_failed(3), of result] fetch_failed(1,2)
  show ?thesis by (intro that(6) [of pre rc out]) simp_all
next
  case (fetched pre out)
  from submodule_step_returned [OF fetched(2), of result] fetched(1)
  show ?thesis by (intro that(7) [of pre out]) simp_all
qed

lemma extends_obtain:
  assumes "extends_by A tr tr'"
  obtains new where "tr' = tr @ new"
  using assms by (auto simp: extends_by_def)


lemma submodule_step_result:
  "snd (submodule_step w self tr result sm) = Inr r \<Longrightarrow> r = result \<or> r = -1"
  by (cases rule: submodule_step_cases [of w self tr result sm]) auto


lemma submodule_step_fetch_failed:
  assumes "fst (submodule_step w self tr result sm) = tr @ new"
    and "Cmd (fetch_call self b) (Inr (rc, out)) \<in> set new" and "rc \<noteq> 0"
  shows "snd (submodule_step w self tr result sm) = Inr (-1)"
  using assms fetch_not_diff [of self b sm]
  by (cases rule: submodule_step_cases [of w self tr result sm])
     (auto simp: clean_check_def fetch_handler_logs_def)

lemma processed_mono: "processed self es sm \<Longrightarrow> set es \<subseteq> set es' \<Longrightarrow> processed self es' sm"
  unfolding processed_def by blast

lemma submodule_step_processed:
  assumes "snd (submodule_step w self tr result sm) = Inr r"
  shows "processed self (fst (submodule_step w self tr result sm)) sm"
  using assms
  by (cases rule: submodule_step_cases [of w self tr result sm])
     (auto simp: processed_def checking_msg_def)

lemma all_succeeded_append:
  "all_succeeded (xs @ ys) = (all_succeeded xs \<and> all_succeeded ys)"
  by (simp add: all_succeeded_def)

lemma all_succeeded_Cmd:
  assumes "all_succeeded es" and "Cmd c oc \<in> set es"
  shows "\<exists>out. oc = Inr (0, out)"
proof -
  from assms have "succeeded (Cmd c oc)"
    by (simp add: all_succeeded_def list_all_iff)
  then show ?thesis
    by (cases oc) auto
qed

lemma submodule_step_success:
  assumes new: "fst (submodule_step w self tr result sm) = tr @ new" and ok: "all_succeeded new"
  shows "snd (submodule_step w self tr result sm) = Inr result"
proof (cases rule: submodule_step_cases [of w self tr result sm])
  case (diff_caught m)
  with new have "Cmd (diff_call self sm) (Inl (RuntimeError m)) \<in> set new" by auto
  from all_succeeded_Cmd [OF ok this] show ?thesis by simp
next
  case (diff_escaped e)
  with new have "Cmd (diff_call self sm) (Inl e) \<in> set new" by auto
  from all_succeeded_Cmd [OF ok this] show ?thesis by simp
next
  case (skipped rc out)
  then show ?thesis by simp
next
  case (fetch_caught pre m)
  with new have "Cmd (fetch_call self sm) (Inl (RuntimeError m)) \<in> set new" by auto
  from all_succeeded_Cmd [OF ok this] show ?thesis by simp
next
  case (fetch_escaped pre e)
  with new have "Cmd (fetch_call self sm) (Inl e) \<in> set new" by auto
  from all_succeeded_Cmd [OF ok this] show ?thesis by simp
next
  case (fetch_failed pre rc out)
  with new have "Cmd (fetch_call self sm) (Inr (rc, out)) \<in> set new" by auto
  from all_succeeded_Cmd [OF ok this] fetch_failed(2) show ?thesis by simp
next
  case (fetched pre out)
  then show ?thesis by simp
qed

subsection \<open>The loop\<close>


lemma submodule_loop_result:
  "snd (submodule_loop w self sms tr result) = Inr r \<Longrightarrow>
   (r = result \<or> r = -1) \<and> (result = -1 \<longrightarrow> r = -1)"
proof (induction sms arbitrary: tr result)
  case Nil
  then show ?case by simp
next
  case (Cons sm sms)
  obtain tr1 res where st: "submodule_step w self tr result sm = (tr1, res)"
    by (cases "submodule_step w self tr result sm")
  show ?case
  proof (cases res)
    case (Inl e)
    with st Cons.prems show ?thesis by simp
  next
    case (Inr r1)
    with st submodule_step_result [of w self tr result sm r1]
    have r1: "r1 = result \<or> r1 = -1" by simp
    from st Inr Cons.prems have "snd (submodule_loop w self sms tr1 r1) = Inr r" by simp
    from Cons.IH [OF this] r1 show ?thesis by auto
  qed
qed

text \<open>Splitting the trace of a loop that went past its first entry.\<close>

lemma submodule_loop_Cons:
  assumes "snd (submodule_loop w self (sm # sms) tr result) = Inr r"
  obtains new1 r1 new2 where
    "submodule_step w self tr result sm = (tr @ new1, Inr r1)"
    "submodule_loop w self sms (tr @ new1) r1 = (tr @ new1 @ new2, Inr r)"
    "submodule_loop w self (sm # sms) tr result = (tr @ new1 @ new2, Inr r)"
proof -
  obtain tr1 res where st: "submodule_step w self tr result sm = (tr1, res)"
    by (cases "submodule_step w self tr result sm")
  from submodule_step_extends [of self sm tr w result] st
  obtain new1 where n1: "tr1 = tr @ new1"
    by (auto elim: extends_obtain)
  from st assms obtain r1 where r1: "res = Inr r1"
    by (cases res) auto
  obtain tr2 res2 where lp: "submodule_loop w self sms tr1 r1 = (tr2, res2)"
    by (cases "submodule_loop w self sms tr1 r1")
  from submodule_loop_extends [of self sms tr1 w r1] lp
  obtain new2 where n2: "tr2 = tr1 @ new2"
    by (auto elim: extends_obtain)
  from st r1 lp assms have res2: "res2 = Inr r" by simp
  from st r1 n1 have a: "submodule_step w self tr result sm = (tr @ new1, Inr r1)" by simp
  from lp n1 n2 res2 have b: "submodule_loop w self sms (tr @ new1) r1 = (tr @ new1 @ new2, Inr r)"
    by simp
  from a b have c: "submodule_loop w self (sm # sms) tr result = (tr @ new1 @ new2, Inr r)"
    by simp
  from a b c show ?thesis by (rule that)
qed

lemma submodule_loop_fetch_failed:
  "submodule_loop w self sms tr result = (tr @ new, Inr r) \<Longrightarrow>
   Cmd (fetch_call self b) (Inr (rc, out)) \<in> set new \<Longrightarrow> rc \<noteq> 0 \<Longrightarrow> r = -1"
proof (induction sms arbitrary: tr result new)
  case Nil
  then show ?case by simp
next
  case (Cons sm sms)
  from Cons.prems(1) have "snd (submodule_loop w self (sm # sms) tr result) = Inr r" by simp
  then obtain new1 r1 new2 where
    st: "submodule_step w self tr result sm = (tr @ new1, Inr r1)"
    and lp: "submodule_loop w self sms (tr @ new1) r1 = (tr @ new1 @ new2, Inr r)"
    and all: "submodule_loop w self (sm # sms) tr result = (tr @ new1 @ new2, Inr r)"
    by (rule submodule_loop_Cons)
  from all Cons.prems(1) have new: "new = new1 @ new2" by simp
  with Cons.prems(2) consider
      (first) "Cmd (fetch_call self b) (Inr (rc, out)) \<in> set new1"
    | (rest) "Cmd (fetch_call self b) (Inr (rc, out)) \<in> set new2"
    by auto
  then show ?case
  proof cases
    case first
    from st have "fst (submodule_step w self tr result sm) = tr @ new1" by simp
    from submodule_step_fetch_failed [OF this first Cons.prems(3)] st
    have "r1 = -1" by simp
    with lp submodule_loop_result [of w self sms "tr @ new1" r1 r] show ?thesis by simp
  next
    case rest
    from lp have "submodule_loop w self sms (tr @ new1) r1 = ((tr @ new1) @ new2, Inr r)"
      by simp
    from Cons.IH [OF this rest Cons.prems(3)] show ?thesis .
  qed
qed


lemma submodule_loop_processed:
  "snd (submodule_loop w self sms tr result) = Inr r \<Longrightarrow>
   \<forall>sm\<in>set sms. processed self (fst (submodule_loop w self sms tr result)) sm"
proof (induction sms arbitrary: tr result)
  case Nil
  show ?case by simp
next
  case (Cons sm sms)
  from Cons.prems obtain new1 r1 new2 where
    st: "submodule_step w self tr result sm = (tr @ new1, Inr r1)"
    and lp: "submodule_loop w self sms (tr @ new1) r1 = (tr @ new1 @ new2, Inr r)"
    and all: "submodule_loop w self (sm # sms) tr result = (tr @ new1 @ new2, Inr r)"
    by (rule submodule_loop_Cons)
  from st submodule_step_processed [of w self tr result sm r1]
  have "processed self (tr @ new1) sm" by simp
  then have p1: "processed self (tr @ new1 @ new2) sm"
    by (rule processed_mono) auto
  from lp have "snd (submodule_loop w self sms (tr @ new1) r1) = Inr r" by simp
  from Cons.IH [OF this] lp
  have p2: "\<forall>b\<in>set sms. processed self (tr @ new1 @ new2) b" by simp
  from p1 p2 all show ?case by simp
qed

lemma submodule_loop_success:
  "fst (submodule_loop w self sms tr result) = tr @ new \<Longrightarrow> all_succeeded new \<Longrightarrow>
   snd (submodule_loop w self sms tr result) = Inr result"
proof (induction sms arbitrary: tr result new)
  case Nil
  show ?case by simp
next
  case (Cons sm sms)
  obtain tr1 res where st: "submodule_step w self tr result sm = (tr1, res)"
    by (cases "submodule_step w self tr result sm")
  from submodule_step_extends [of self sm tr w result] st
  obtain new1 where n1: "tr1 = tr @ new1"
    by (auto elim: extends_obtain)
  show ?case
  proof (cases res)
    case (Inl e)
    with st n1 Cons.prems(1) have "new = new1" by simp
    with Cons.prems(2) st n1 submodule_step_success [of w self tr result sm new1]
    have "res = Inr result" by simp
    with Inl show ?thesis by simp
  next
    case (Inr r1)
    obtain tr2 res2 where lp: "submodule_loop w self sms tr1 r1 = (tr2, res2)"
      by (cases "submodule_loop w self sms tr1 r1")
    from submodule_loop_extends [of self sms tr1 w r1] lp
    obtain new2 where n2: "tr2 = tr1 @ new2"
      by (auto elim: extends_obtain)
    from st Inr lp n1 n2 Cons.prems(1) have new: "new = new1 @ new2" by simp
    with Cons.prems(2) have s1: "all_succeeded new1" and s2: "all_succeeded new2"
      by (simp_all add: all_succeeded_append)
    from st n1 s1 submodule_step_success [of w self tr result sm new1] Inr
    have r1: "r1 = result" by simp
    from lp n2 have "fst (submodule_loop w self sms tr1 r1) = tr1 @ new2" by simp
    from Cons.IH [OF this s2] st Inr r1 show ?thesis by simp
  qed
qed

text \<open>The calls of the loop are not calls of the clean or the sync.\<close>

lemma submodule_stage_not_clean:
  "submodule_stage_call self sms c \<Longrightarrow> \<not> clean_stage_call w self c"
  by (auto simp: submodule_stage_call_def clean_stage_call_def root_stage_call_def
        submodule_clean_stage_call_def diff_call_def fetch_call_def cmd_string_def
        root_reset_call_def root_clean_call_def submodule_reset_call_def
        submodule_clean_call_def)

lemma submodule_stage_not_sync:
  "submodule_stage_call self sms c \<Longrightarrow> c \<noteq> sync_call self"
  by (auto simp: submodule_stage_call_def diff_call_def fetch_call_def cmd_string_def
        sync_call_def)

lemma submodule_stage_not_version:
  "submodule_stage_call self sms c \<Longrightarrow> c \<noteq> git_version_call"
  by (auto simp: submodule_stage_call_def diff_call_def fetch_call_def cmd_string_def
        git_version_call_def)

lemma sync_repos_Cmd_mem:
  "Cmd c oc \<in> set (fst (sync_repos w self tr)) \<Longrightarrow> Cmd c oc \<in> set tr \<or> c = sync_call self"
  by (auto simp: sync_repos_def RunCmd_def split: sum.splits prod.splits exn.splits)

lemma sync_repos_obtain:
  obtains new where "fst (sync_repos w self tr) = tr @ new"
  by (rule extends_obtain [OF sync_repos_extends])

text \<open>A run that shows an event of the loop went through the loop.\<close>

lemma grab_repos_loop:
  assumes "Cmd c oc \<in> set (fst (grab_repos w self tr))" and "Cmd c oc \<notin> set tr"
    and "submodule_stage_call self (required_submodules self) c"
  obtains pre where
    "grab_repos w self tr = submodule_loop w self (required_submodules self) (tr @ pre) 0"
    "Cmd c oc \<notin> set (tr @ pre)"
proof (cases "required_submodules self = []")
  case True
  with assms(1,2) show ?thesis by (simp add: grab_repos_def)
next
  case False
  obtain tr1 res where sy: "sync_repos w self tr = (tr1, res)"
    by (cases "sync_repos w self tr")
  obtain pre where pre: "tr1 = tr @ pre"
    using sync_repos_obtain [of w self tr] sy by auto
  from sync_repos_Cmd_mem [of c oc w self tr] sy assms(2) submodule_stage_not_sync [OF assms(3)]
  have fresh: "Cmd c oc \<notin> set tr1" by auto
  show ?thesis
  proof (cases res)
    case (Inl e)
    with False sy assms(1) fresh show ?thesis by (simp add: grab_repos_def)
  next
    case (Inr ro)
    show ?thesis
    proof (cases ro)
      case (Some r)
      with False sy Inr assms(1) fresh show ?thesis by (simp add: grab_repos_def)
    next
      case None
      with False sy Inr pre
      have "grab_repos w self tr = submodule_loop w self (required_submodules self) (tr @ pre) 0"
        by (simp add: grab_repos_def)
      moreover from fresh pre have "Cmd c oc \<notin> set (tr @ pre)" by simp
      ultimately show ?thesis by (rule that)
    qed
  qed
qed

lemma setup_repos_loop:
  assumes "Cmd c oc \<in> set (fst (setup_repos w self tr))" and "Cmd c oc \<notin> set tr"
    and "submodule_stage_call self (required_submodules self) c"
  obtains pre where
    "setup_repos w self tr = submodule_loop w self (required_submodules self) (tr @ pre) 0"
    "Cmd c oc \<notin> set (tr @ pre)"
proof (cases "force_it self")
  case False
  then have s: "setup_repos w self tr = grab_repos w self tr"
    by (simp add: setup_repos_def)
  with assms(1) have "Cmd c oc \<in> set (fst (grab_repos w self tr))" by simp
  then obtain pre where
    "grab_repos w self tr = submodule_loop w self (required_submodules self) (tr @ pre) 0"
    "Cmd c oc \<notin> set (tr @ pre)"
    using assms(2,3) by (rule grab_repos_loop)
  with s show ?thesis by (intro that [of pre]) simp_all
next
  case True
  obtain tr1 res where fc: "force_clean w self tr = (tr1, res)"
    by (cases "force_clean w self tr")
  from force_clean_extends [of w self tr] fc
  have ext: "extends_by (clean_stage_call w self) tr tr1" by simp
  then obtain pre1 where pre1: "tr1 = tr @ pre1" by (rule extends_obtain)
  from extends_Cmd_mem [OF ext, of c oc] assms(2) submodule_stage_not_clean [OF assms(3)]
  have fresh: "Cmd c oc \<notin> set tr1" by blast
  show ?thesis
  proof (cases "res = Inr None")
    case False
    with True fc assms(1) fresh show ?thesis
      by (auto simp: setup_repos_def split: sum.splits option.splits)
  next
    case n: True
    with True fc have s: "setup_repos w self tr = grab_repos w self tr1"
      by (simp add: setup_repos_def)
    with assms(1) have "Cmd c oc \<in> set (fst (grab_repos w self tr1))" by simp
    then obtain pre2 where
      g: "grab_repos w self tr1
            = submodule_loop w self (required_submodules self) (tr1 @ pre2) 0"
      and f2: "Cmd c oc \<notin> set (tr1 @ pre2)"
      using fresh assms(3) by (rule grab_repos_loop)
    from s g pre1 f2 show ?thesis
      by (intro that [of "pre1 @ pre2"]) simp_all
  qed
qed

lemma Go_loop:
  assumes "Cmd c oc \<in> set (fst (Go w self))"
    and "submodule_stage_call self (required_submodules self) c"
  obtains pre where
    "Go w self = submodule_loop w self (required_submodules self) pre 0"
    "Cmd c oc \<notin> set pre"
proof (cases rule: Go_cases [of w self])
  case (query_raised e)
  with assms(1) submodule_stage_not_version [OF assms(2)] show ?thesis by simp
next
  case (check_failed rc out e)
  with assms(1) submodule_stage_not_version [OF assms(2)] show ?thesis by simp
next
  case (check_passed rc out)
  let ?tr = "[Cmd git_version_call (Inr (rc, out)), ReportVersion ''Git'' (strip out) TOOL]"
  from submodule_stage_not_version [OF assms(2)] have fresh: "Cmd c oc \<notin> set ?tr" by simp
  from check_passed assms(1) have "Cmd c oc \<in> set (fst (setup_repos w self ?tr))" by simp
  then obtain pre where
    "setup_repos w self ?tr = submodule_loop w self (required_submodules self) (?tr @ pre) 0"
    "Cmd c oc \<notin> set (?tr @ pre)"
    using fresh assms(2) by (rule setup_repos_loop)
  with check_passed show ?thesis
    by (intro that [of "?tr @ pre"]) simp_all
qed

text \<open>
  Claim C6, as amended. Let the fetch of a required submodule \<open>a\<close> exit non-zero. The iteration of
  \<open>a\<close> then does not raise: it logs the failure and sets \<open>result\<close> to -1, and the loop goes
  on with the entries after \<open>a\<close>, from the trace and the result the iteration left. A run
  in which this has happened and which returns, returns -1, also when every later fetch
  succeeds; and in such a run every required submodule \<open>b\<close> has been processed: its check
  is logged, and its fetch was attempted, unless \<open>b\<close> itself was skipped for local changes
  or its own dirty check failed.
\<close>

theorem fetch_failure_isolated:
  assumes "a \<in> set (required_submodules self)" and "rc \<noteq> 0"
  shows "(\<forall>new. fst (submodule_step w self tr result a) = tr @ new
                \<and> Cmd (fetch_call self a) (Inr (rc, out)) \<in> set new \<longrightarrow>
            snd (submodule_step w self tr result a) = Inr (-1)
            \<and> submodule_loop w self (a # rest) tr result
                = submodule_loop w self rest (tr @ new) (-1))
       \<and> (\<forall>r. snd (Go w self) = Inr r
                \<and> Cmd (fetch_call self a) (Inr (rc, out)) \<in> set (fst (Go w self)) \<longrightarrow>
            r = -1
            \<and> (\<forall>b\<in>set (required_submodules self).
                  Log PROGRESS (''## Checking Git repository: '' @ path b @ ''...'')
                    \<in> set (fst (Go w self))
                  \<and> ((\<exists>oc. Cmd (fetch_call self b) oc \<in> set (fst (Go w self)))
                     \<or> (\<exists>rc' out'. Cmd (diff_call self b) (Inr (rc', out')) \<in> set (fst (Go w self))
                                    \<and> strip out' \<noteq> [])
                     \<or> (\<exists>m. Cmd (diff_call self b) (Inl (RuntimeError m))
                               \<in> set (fst (Go w self))))))"
proof (intro conjI allI impI)
  fix new
  assume h: "fst (submodule_step w self tr result a) = tr @ new
             \<and> Cmd (fetch_call self a) (Inr (rc, out)) \<in> set new"
  then have f: "fst (submodule_step w self tr result a) = tr @ new"
    and e: "Cmd (fetch_call self a) (Inr (rc, out)) \<in> set new" by simp_all
  from submodule_step_fetch_failed [OF f e assms(2)]
  show s: "snd (submodule_step w self tr result a) = Inr (-1)" .
  from f s have "submodule_step w self tr result a = (tr @ new, Inr (-1))"
    by (simp add: prod_eq_iff)
  then show "submodule_loop w self (a # rest) tr result
               = submodule_loop w self rest (tr @ new) (-1)"
    by simp
next
  fix r
  assume h: "snd (Go w self) = Inr r
             \<and> Cmd (fetch_call self a) (Inr (rc, out)) \<in> set (fst (Go w self))"
  then have ret: "snd (Go w self) = Inr r"
    and ev: "Cmd (fetch_call self a) (Inr (rc, out)) \<in> set (fst (Go w self))" by simp_all
  have st: "submodule_stage_call self (required_submodules self) (fetch_call self a)"
    using assms(1) by (auto simp: submodule_stage_call_def)
  from ev st obtain pre where
    go: "Go w self = submodule_loop w self (required_submodules self) pre 0"
    and fresh: "Cmd (fetch_call self a) (Inr (rc, out)) \<notin> set pre"
    by (rule Go_loop)
  from submodule_loop_extends [of self "required_submodules self" pre w 0] go
  obtain new where new: "fst (Go w self) = pre @ new"
    by (auto elim: extends_obtain)
  with ev fresh have ev': "Cmd (fetch_call self a) (Inr (rc, out)) \<in> set new" by simp
  from go new ret
  have lp: "submodule_loop w self (required_submodules self) pre 0 = (pre @ new, Inr r)"
    by (simp add: prod_eq_iff)
  from submodule_loop_fetch_failed [OF lp ev' assms(2)] show "r = -1" .
  from lp have "snd (submodule_loop w self (required_submodules self) pre 0) = Inr r" by simp
  from submodule_loop_processed [OF this] go
  have p: "\<forall>b\<in>set (required_submodules self). processed self (fst (Go w self)) b" by simp
  show "\<forall>b\<in>set (required_submodules self).
          Log PROGRESS (''## Checking Git repository: '' @ path b @ ''...'')
            \<in> set (fst (Go w self))
          \<and> ((\<exists>oc. Cmd (fetch_call self b) oc \<in> set (fst (Go w self)))
             \<or> (\<exists>rc' out'. Cmd (diff_call self b) (Inr (rc', out')) \<in> set (fst (Go w self))
                            \<and> strip out' \<noteq> [])
             \<or> (\<exists>m. Cmd (diff_call self b) (Inl (RuntimeError m))
                       \<in> set (fst (Go w self))))"
    using p unfolding processed_def by blast
qed

lemma Go_mu_fetch_fails:
  "Go (scripted_world ''2.39.2'' mu_fetch_fails nothing_exists) setup0 =
    ([Cmd (Call ''git'' ''--version'' None True) (Inr (0, ''git version 2.39.2'' @ [newline])),
      ReportVersion ''Git'' ''git version 2.39.2'' TOOL,
      Log PROGRESS ''## Syncing Git repositories: Common/MU Tiano...'',
      Cmd (Call ''git'' ''submodule sync -- Common/MU Tiano'' (Some ''/ws'') True) (Inr (0, [])),
      Log PROGRESS (''Done.'' @ [newline]),
      Log PROGRESS ''## Checking Git repository: Common/MU...'',
      Log INFO ''## Fetching repo.'',
      Cmd (Call ''git'' ''submodule update --init --recursive --progress Common/MU'' (Some ''/ws'') False)
        (Inr (1, [])),
      Log ERROR ''Failed to fetch Common/MU'',
      Log ERROR (''FAILED!'' @ [newline]),
      Log ERROR (''Failed to fetch required repository!'' @ [newline]),
      Log ERROR ''Unable to checkout repo due to error'',
      Log PROGRESS ''## Checking Git repository: Tiano...'',
      Log INFO ''## Fetching repo.'',
      Cmd (Call ''git'' ''submodule update --init --progress Tiano'' (Some ''/ws'') False)
        (Inr (0, [])),
      Log PROGRESS (''Done.'' @ [newline])],
     Inr (- 1))"
  by code_simp

lemma step_mu_fetch_fails:
  "submodule_step (scripted_world ''2.39.2'' mu_fetch_fails nothing_exists) setup0 [] 0 mu =
    ([Log PROGRESS ''## Checking Git repository: Common/MU...'',
      Log INFO ''## Fetching repo.'',
      Cmd (Call ''git'' ''submodule update --init --recursive --progress Common/MU'' (Some ''/ws'') False)
        (Inr (1, [])),
      Log ERROR ''Failed to fetch Common/MU'',
      Log ERROR (''FAILED!'' @ [newline]),
      Log ERROR (''Failed to fetch required repository!'' @ [newline]),
      Log ERROR ''Unable to checkout repo due to error''],
     Inr (- 1))"
  by code_simp

lemma Go_fetch_fails_dirty:
  "Go (scripted_world ''2.39.2'' fetch_fails_dirty only_tiano_exists) setup0 =
    ([Cmd (Call ''git'' ''--version'' None True) (Inr (0, ''git version 2.39.2'' @ [newline])),
      ReportVersion ''Git'' ''git version 2.39.2'' TOOL,
      Log PROGRESS ''## Syncing Git repositories: Common/MU Tiano...'',
      Cmd (Call ''git'' ''submodule sync -- Common/MU Tiano'' (Some ''/ws'') True)
        (Inr (0, [])),
      Log PROGRESS (''Done.'' @ [newline]),
      Log PROGRESS ''## Checking Git repository: Common/MU...'',
      Log INFO ''## Fetching repo.'',
      Cmd (Call ''git'' ''submodule update --init --recursive --progress Common/MU'' (Some ''/ws'') False)
        (Inr (1, [])),
      Log ERROR ''Failed to fetch Common/MU'',
      Log ERROR (''FAILED!'' @ [newline]),
      Log ERROR (''Failed to fetch required repository!'' @ [newline]),
      Log ERROR ''Unable to checkout repo due to error'',
      Log PROGRESS ''## Checking Git repository: Tiano...'',
      Cmd (Call ''git'' ''diff Tiano'' (Some ''/ws'') True)
        (Inr (0, ''diff --git a/Readme.md b/Readme.md'' @ [newline])),
      Log INFO ''-- NOTE: Repo currently exists and appears to have local changes!'',
      Log INFO ''-- Skipping fetch!'',
      Log PROGRESS (''Done.'' @ [newline])],
     Inr (- 1))"
  by code_simp

theorem fetch_failure_isolated_witness:
  "mu \<in> set (required_submodules setup0) \<and> (1::int) \<noteq> 0
   \<and> Cmd (fetch_call setup0 mu) (Inr (1, []))
       \<in> set (fst (Go (scripted_world ''2.39.2'' mu_fetch_fails nothing_exists) setup0))
   \<and> snd (Go (scripted_world ''2.39.2'' mu_fetch_fails nothing_exists) setup0) = Inr (- 1)
   \<and> Cmd (fetch_call setup0 tiano) (Inr (0, []))
       \<in> set (fst (Go (scripted_world ''2.39.2'' mu_fetch_fails nothing_exists) setup0))
   \<and> Log PROGRESS (''## Checking Git repository: '' @ path tiano @ ''...'')
       \<in> set (fst (Go (scripted_world ''2.39.2'' mu_fetch_fails nothing_exists) setup0))
   \<and> snd (submodule_step (scripted_world ''2.39.2'' mu_fetch_fails nothing_exists)
             setup0 [] 0 mu) = Inr (- 1)
   \<and> submodule_loop (scripted_world ''2.39.2'' mu_fetch_fails nothing_exists) setup0
        [mu, tiano] [] 0
      = submodule_loop (scripted_world ''2.39.2'' mu_fetch_fails nothing_exists) setup0 [tiano]
          ([] @ [Log PROGRESS ''## Checking Git repository: Common/MU...'',
                 Log INFO ''## Fetching repo.'',
                 Cmd (Call ''git'' ''submodule update --init --recursive --progress Common/MU''
                        (Some ''/ws'') False) (Inr (1, [])),
                 Log ERROR ''Failed to fetch Common/MU'',
                 Log ERROR (''FAILED!'' @ [newline]),
                 Log ERROR (''Failed to fetch required repository!'' @ [newline]),
                 Log ERROR ''Unable to checkout repo due to error''])
          (- 1)"
proof -
  let ?w = "scripted_world ''2.39.2'' mu_fetch_fails nothing_exists"
  let ?new = "[Log PROGRESS ''## Checking Git repository: Common/MU...'',
               Log INFO ''## Fetching repo.'',
               Cmd (Call ''git'' ''submodule update --init --recursive --progress Common/MU''
                      (Some ''/ws'') False) (Inr (1, [])),
               Log ERROR ''Failed to fetch Common/MU'',
               Log ERROR (''FAILED!'' @ [newline]),
               Log ERROR (''Failed to fetch required repository!'' @ [newline]),
               Log ERROR ''Unable to checkout repo due to error'']"
  have a: "mu \<in> set (required_submodules setup0)"
    by (simp add: setup0_def)
  have t: "tiano \<in> set (required_submodules setup0)"
    by (simp add: setup0_def)
  have n: "(1::int) \<noteq> 0"
    by simp
  have fm: "fetch_call setup0 mu
              = Call ''git'' ''submodule update --init --recursive --progress Common/MU''
                  (Some ''/ws'') False"
    by (simp add: fetch_call_def cmd_string_def setup0_def mu_def)
  have ft: "fetch_call setup0 tiano
              = Call ''git'' ''submodule update --init --progress Tiano'' (Some ''/ws'') False"
    by (simp add: fetch_call_def cmd_string_def setup0_def tiano_def)
  have s1: "fst (submodule_step ?w setup0 [] 0 mu) = [] @ ?new"
    by (simp add: step_mu_fetch_fails)
  have s2: "Cmd (fetch_call setup0 mu) (Inr (1, [])) \<in> set ?new"
    unfolding fm by simp
  have g1: "snd (Go ?w setup0) = Inr (- 1)"
    by (simp add: Go_mu_fetch_fails)
  have g2: "Cmd (fetch_call setup0 mu) (Inr (1, [])) \<in> set (fst (Go ?w setup0))"
    unfolding fm Go_mu_fetch_fails by simp
  have g3: "Cmd (fetch_call setup0 tiano) (Inr (0, [])) \<in> set (fst (Go ?w setup0))"
    unfolding ft Go_mu_fetch_fails by simp
  note inst = fetch_failure_isolated [OF a n, of ?w "[]" 0 "[]" "[tiano]"]
  from inst s1 s2
  have c1: "snd (submodule_step ?w setup0 [] 0 mu) = Inr (- 1)
            \<and> submodule_loop ?w setup0 [mu, tiano] [] 0
               = submodule_loop ?w setup0 [tiano] ([] @ ?new) (- 1)"
    by blast
  from inst g1 g2 t
  have c2: "Log PROGRESS (''## Checking Git repository: '' @ path tiano @ ''...'')
              \<in> set (fst (Go ?w setup0))"
    by blast
  from a n g2 g1 g3 c2 c1 show ?thesis
    by (intro conjI) simp_all
qed

theorem fetch_failure_isolated_counterexample:
  "required_submodules setup0 = [mu, tiano]
   \<and> Go (scripted_world ''2.39.2'' fetch_fails_dirty only_tiano_exists) setup0 =
      ([Cmd (Call ''git'' ''--version'' None True) (Inr (0, ''git version 2.39.2'' @ [newline])),
        ReportVersion ''Git'' ''git version 2.39.2'' TOOL,
        Log PROGRESS ''## Syncing Git repositories: Common/MU Tiano...'',
        Cmd (Call ''git'' ''submodule sync -- Common/MU Tiano'' (Some ''/ws'') True)
          (Inr (0, [])),
        Log PROGRESS (''Done.'' @ [newline]),
        Log PROGRESS ''## Checking Git repository: Common/MU...'',
        Log INFO ''## Fetching repo.'',
        Cmd (Call ''git'' ''submodule update --init --recursive --progress Common/MU''
               (Some ''/ws'') False)
          (Inr (1, [])),
        Log ERROR ''Failed to fetch Common/MU'',
        Log ERROR (''FAILED!'' @ [newline]),
        Log ERROR (''Failed to fetch required repository!'' @ [newline]),
        Log ERROR ''Unable to checkout repo due to error'',
        Log PROGRESS ''## Checking Git repository: Tiano...'',
        Cmd (Call ''git'' ''diff Tiano'' (Some ''/ws'') True)
          (Inr (0, ''diff --git a/Readme.md b/Readme.md'' @ [newline])),
        Log INFO ''-- NOTE: Repo currently exists and appears to have local changes!'',
        Log INFO ''-- Skipping fetch!'',
        Log PROGRESS (''Done.'' @ [newline])],
       Inr (- 1))
   \<and> fetch_call setup0 tiano
       \<notin> set (calls (fst (Go (scripted_world ''2.39.2'' fetch_fails_dirty only_tiano_exists)
                             setup0)))"
proof -
  have r: "required_submodules setup0 = [mu, tiano]"
    by (simp add: setup0_def)
  have ft: "fetch_call setup0 tiano
              = Call ''git'' ''submodule update --init --progress Tiano'' (Some ''/ws'') False"
    by (simp add: fetch_call_def cmd_string_def setup0_def tiano_def)
  have n: "fetch_call setup0 tiano
       \<notin> set (calls (fst (Go (scripted_world ''2.39.2'' fetch_fails_dirty only_tiano_exists)
                             setup0)))"
    unfolding ft Go_fetch_fails_dirty by simp
  from r Go_fetch_fails_dirty n show ?thesis
    by (intro conjI)
qed


lemma all_succeeded_subset:
  "all_succeeded es' \<Longrightarrow> set es \<subseteq> set es' \<Longrightarrow> all_succeeded es"
  by (auto simp: all_succeeded_def list_all_iff)

lemma extends_subset: "extends_by A tr tr' \<Longrightarrow> set tr \<subseteq> set tr'"
  by (auto simp: extends_by_def)

subsection \<open>How the fatal stages end\<close>

text \<open>A stage that ends with an exception shows the call that raised it, and a call
  that raised ended the stage.\<close>

lemma clean_root_raise:
  "snd (clean_root w self tr) = Inl e \<Longrightarrow> \<exists>c. Cmd c (Inl e) \<in> set (fst (clean_root w self tr))"
  by (auto simp: clean_root_def RunCmd_def split: sum.splits prod.splits)

lemma clean_root_raised:
  "Cmd c (Inl e) \<in> set (fst (clean_root w self tr)) \<Longrightarrow> Cmd c (Inl e) \<notin> set tr \<Longrightarrow>
   snd (clean_root w self tr) = Inl e"
  by (auto simp: clean_root_def RunCmd_def split: sum.splits prod.splits)

lemma clean_submodules_raise:
  "snd (clean_submodules w self sms tr) = Inl e \<Longrightarrow>
   \<exists>c. Cmd c (Inl e) \<in> set (fst (clean_submodules w self sms tr))"
proof (induction sms arbitrary: tr)
  case Nil
  then show ?case by simp
next
  case (Cons sm sms)
  let ?r = "submodule_reset_call w self sm" and ?c = "submodule_clean_call w self sm"
  let ?tr0 = "tr @ [Log PROGRESS (''## Cleaning Git repository: '' @ path sm @ ''...'')]"
  let ?tr1 = "?tr0 @ [Cmd ?r (run_cmd w ?tr0 ?r)]"
  let ?tr2 = "?tr1 @ [Cmd ?c (run_cmd w ?tr1 ?c)]"
  let ?tr3 = "?tr2 @ [Log PROGRESS done_msg]"
  show ?case
  proof (cases "run_cmd w ?tr0 ?r")
    case (Inl e1)
    with Cons.prems show ?thesis by (auto simp: RunCmd_def)
  next
    case r: (Inr p1)
    show ?thesis
    proof (cases "run_cmd w ?tr1 ?c")
      case (Inl e2)
      with r Cons.prems show ?thesis by (auto simp: RunCmd_def)
    next
      case c: (Inr p2)
      from r c have step: "clean_submodules w self (sm # sms) tr = clean_submodules w self sms ?tr3"
        by (simp add: RunCmd_def)
      with Cons.prems have "snd (clean_submodules w self sms ?tr3) = Inl e" by simp
      from Cons.IH [OF this] step show ?thesis by simp
    qed
  qed
qed

lemma clean_submodules_raised:
  "Cmd c (Inl e) \<in> set (fst (clean_submodules w self sms tr)) \<Longrightarrow> Cmd c (Inl e) \<notin> set tr \<Longrightarrow>
   snd (clean_submodules w self sms tr) = Inl e"
proof (induction sms arbitrary: tr)
  case Nil
  then show ?case by simp
next
  case (Cons sm sms)
  let ?r = "submodule_reset_call w self sm" and ?c = "submodule_clean_call w self sm"
  let ?tr0 = "tr @ [Log PROGRESS (''## Cleaning Git repository: '' @ path sm @ ''...'')]"
  let ?tr1 = "?tr0 @ [Cmd ?r (run_cmd w ?tr0 ?r)]"
  let ?tr2 = "?tr1 @ [Cmd ?c (run_cmd w ?tr1 ?c)]"
  let ?tr3 = "?tr2 @ [Log PROGRESS done_msg]"
  show ?case
  proof (cases "run_cmd w ?tr0 ?r")
    case (Inl e1)
    with Cons.prems show ?thesis by (auto simp: RunCmd_def)
  next
    case r: (Inr p1)
    show ?thesis
    proof (cases "run_cmd w ?tr1 ?c")
      case (Inl e2)
      with r Cons.prems show ?thesis by (auto simp: RunCmd_def)
    next
      case c: (Inr p2)
      from r c have step: "clean_submodules w self (sm # sms) tr = clean_submodules w self sms ?tr3"
        by (simp add: RunCmd_def)
      with Cons.prems(1) have m: "Cmd c (Inl e) \<in> set (fst (clean_submodules w self sms ?tr3))"
        by simp
      from Cons.prems(2) r c have "Cmd c (Inl e) \<notin> set ?tr3" by auto
      from Cons.IH [OF m this] step show ?thesis by simp
    qed
  qed
qed

lemma force_clean_body_raise:
  assumes "snd (force_clean_body w self tr) = Inl e"
  shows "\<exists>c. Cmd c (Inl e) \<in> set (fst (force_clean_body w self tr))"
proof (cases "clean_root w self tr")
  case (Pair tr1 res)
  show ?thesis
  proof (cases res)
    case (Inl e1)
    with Pair assms clean_root_raise [of w self tr e] show ?thesis
      by (simp add: force_clean_body_def)
  next
    case (Inr u)
    with Pair assms clean_submodules_raise [of w self "required_submodules self" tr1 e]
    show ?thesis
      by (auto simp: force_clean_body_def split: if_splits)
  qed
qed

lemma force_clean_body_raised:
  assumes "Cmd c (Inl e) \<in> set (fst (force_clean_body w self tr))" and "Cmd c (Inl e) \<notin> set tr"
  shows "snd (force_clean_body w self tr) = Inl e"
proof (cases "clean_root w self tr")
  case (Pair tr1 res)
  show ?thesis
  proof (cases res)
    case (Inl e1)
    with Pair assms clean_root_raised [of c e w self tr] show ?thesis
      by (simp add: force_clean_body_def)
  next
    case (Inr u)
    with Pair clean_root_raised [of c e w self tr] assms(2)
    have fresh: "Cmd c (Inl e) \<notin> set tr1" by auto
    show ?thesis
    proof (cases "required_submodules self = []")
      case True
      with Pair Inr assms(1) fresh show ?thesis by (simp add: force_clean_body_def)
    next
      case False
      with Pair Inr assms(1)
      have "Cmd c (Inl e) \<in> set (fst (clean_submodules w self (required_submodules self) tr1))"
        by (simp add: force_clean_body_def)
      from clean_submodules_raised [OF this fresh] Pair Inr False show ?thesis
        by (simp add: force_clean_body_def)
    qed
  qed
qed

text \<open>The three ways the force clean with its handler ends.\<close>

lemma force_clean_cases:
  obtains (cleaned) tr1 where
      "force_clean w self tr = (tr1, Inr None)"
      "extends_by (clean_stage_call w self) tr tr1"
      "\<forall>c e. Cmd c (Inl e) \<in> set tr1 \<longrightarrow> Cmd c (Inl e) \<in> set tr"
  | (failed) tr1 c m where
      "force_clean w self tr
         = (tr1 @ [Log ERROR failed_msg,
                   Log ERROR ''Error while trying to clean the environment!'',
                   Log ERROR m], Inr (Some (-1)))"
      "extends_by (clean_stage_call w self) tr tr1"
      "Cmd c (Inl (RuntimeError m)) \<in> set tr1"
  | (escaped) tr1 c e where
      "force_clean w self tr = (tr1, Inl e)" "\<forall>m. e \<noteq> RuntimeError m"
      "extends_by (clean_stage_call w self) tr tr1"
      "Cmd c (Inl e) \<in> set tr1"
proof -
  obtain tr1 res where b: "force_clean_body w self tr = (tr1, res)"
    by (cases "force_clean_body w self tr")
  from force_clean_body_extends [of w self tr] b
  have ext: "extends_by (clean_stage_call w self) tr tr1" by simp
  show ?thesis
  proof (cases res)
    case (Inr u)
    with b have f: "force_clean w self tr = (tr1, Inr None)"
      by (simp add: force_clean_def)
    have "Cmd c (Inl e) \<in> set tr" if "Cmd c (Inl e) \<in> set tr1" for c e
    proof (rule ccontr)
      assume "Cmd c (Inl e) \<notin> set tr"
      with force_clean_body_raised [of c e w self tr] that b Inr show False by simp
    qed
    then have "\<forall>c e. Cmd c (Inl e) \<in> set tr1 \<longrightarrow> Cmd c (Inl e) \<in> set tr" by blast
    with f ext show ?thesis by (rule cleaned)
  next
    case (Inl e)
    with b force_clean_body_raise [of w self tr e]
    obtain c where c: "Cmd c (Inl e) \<in> set tr1" by auto
    show ?thesis
    proof (cases "\<exists>m. e = RuntimeError m")
      case True
      then obtain m where m: "e = RuntimeError m" by blast
      with b Inl have "force_clean w self tr
         = (tr1 @ [Log ERROR failed_msg,
                   Log ERROR ''Error while trying to clean the environment!'',
                   Log ERROR m], Inr (Some (-1)))"
        by (simp add: force_clean_def)
      with ext c m show ?thesis by (intro failed [of tr1 m c]) simp_all
    next
      case False
      then have ne: "\<forall>m. e \<noteq> RuntimeError m" by blast
      with b Inl have "force_clean w self tr = (tr1, Inl e)"
        by (cases e) (simp_all add: force_clean_def)
      with ne ext c show ?thesis by (intro escaped [of tr1 e c]) simp_all
    qed
  qed
qed

text \<open>The three ways the sync with its handler ends.\<close>

lemma sync_repos_cases:
  obtains (synced) p where
      "sync_repos w self tr
         = (tr @ [Log PROGRESS (''## Syncing Git repositories: '' @ submodule_string self @ ''...''),
                  Cmd (sync_call self) (Inr p), Log PROGRESS done_msg], Inr None)"
  | (failed) m where
      "sync_repos w self tr
         = (tr @ [Log PROGRESS (''## Syncing Git repositories: '' @ submodule_string self @ ''...''),
                  Cmd (sync_call self) (Inl (RuntimeError m)),
                  Log ERROR failed_msg,
                  Log ERROR ''Error while trying to synchronize the environment!'',
                  Log ERROR m], Inr (Some (-1)))"
  | (escaped) e where
      "\<forall>m. e \<noteq> RuntimeError m"
      "sync_repos w self tr
         = (tr @ [Log PROGRESS (''## Syncing Git repositories: '' @ submodule_string self @ ''...''),
                  Cmd (sync_call self) (Inl e)], Inl e)"
proof -
  let ?tr0 = "tr @ [Log PROGRESS (''## Syncing Git repositories: '' @ submodule_string self @ ''...'')]"
  show ?thesis
  proof (cases "run_cmd w ?tr0 (sync_call self)")
    case (Inr p)
    then have "sync_repos w self tr
         = (tr @ [Log PROGRESS (''## Syncing Git repositories: '' @ submodule_string self @ ''...''),
                  Cmd (sync_call self) (Inr p), Log PROGRESS done_msg], Inr None)"
      by (simp add: sync_repos_def RunCmd_def)
    then show ?thesis by (rule synced)
  next
    case (Inl e)
    show ?thesis
    proof (cases "\<exists>m. e = RuntimeError m")
      case True
      then obtain m where m: "e = RuntimeError m" by blast
      with Inl have "sync_repos w self tr
         = (tr @ [Log PROGRESS (''## Syncing Git repositories: '' @ submodule_string self @ ''...''),
                  Cmd (sync_call self) (Inl (RuntimeError m)),
                  Log ERROR failed_msg,
                  Log ERROR ''Error while trying to synchronize the environment!'',
                  Log ERROR m], Inr (Some (-1)))"
        by (simp add: sync_repos_def RunCmd_def)
      then show ?thesis by (rule failed)
    next
      case False
      then have ne: "\<forall>m. e \<noteq> RuntimeError m" by blast
      with Inl have "sync_repos w self tr
         = (tr @ [Log PROGRESS (''## Syncing Git repositories: '' @ submodule_string self @ ''...''),
                  Cmd (sync_call self) (Inl e)], Inl e)"
        by (cases e) (simp_all add: sync_repos_def RunCmd_def)
      with ne show ?thesis by (rule escaped)
    qed
  qed
qed

lemma force_clean_escaped_only:
  assumes "force_clean w self tr = (tr1, Inl e)"
    and "Cmd c (Inl e') \<in> set tr1" and "Cmd c (Inl e') \<notin> set tr"
  shows "e' = e"
proof -
  from assms(1) have b: "force_clean_body w self tr = (tr1, Inl e)"
    by (auto simp: force_clean_def split: prod.splits sum.splits exn.splits)
  with force_clean_body_raised [of c e' w self tr] assms(2,3) show ?thesis by simp
qed

subsection \<open>The result of a run\<close>

lemma grab_repos_result:
  assumes "snd (grab_repos w self tr) = Inr r"
  shows "r = 0 \<or> r = -1"
proof (cases "required_submodules self = []")
  case True
  with assms show ?thesis by (simp add: grab_repos_def)
next
  case False
  show ?thesis
  proof (cases rule: sync_repos_cases [of w self tr])
    case (synced p)
    with False assms submodule_loop_result [of w self "required_submodules self" _ 0 r]
    show ?thesis by (simp add: grab_repos_def)
  next
    case (failed m)
    with False assms show ?thesis by (simp add: grab_repos_def)
  next
    case (escaped e)
    with False assms show ?thesis by (simp add: grab_repos_def)
  qed
qed

lemma setup_repos_result:
  assumes "snd (setup_repos w self tr) = Inr r"
  shows "r = 0 \<or> r = -1"
proof (cases "force_it self")
  case False
  with assms grab_repos_result [of w self tr r] show ?thesis
    by (simp add: setup_repos_def)
next
  case True
  show ?thesis
  proof (cases rule: force_clean_cases [of w self tr])
    case (cleaned tr1)
    with True assms grab_repos_result [of w self tr1 r] show ?thesis
      by (simp add: setup_repos_def)
  next
    case (failed tr1 c m)
    with True assms show ?thesis by (simp add: setup_repos_def)
  next
    case (escaped tr1 c e)
    with True assms show ?thesis by (simp add: setup_repos_def)
  qed
qed

lemma Go_result:
  assumes "snd (Go w self) = Inr r"
  shows "r = 0 \<or> r = -1"
proof (cases rule: Go_cases [of w self])
  case (query_raised e)
  with assms show ?thesis by simp
next
  case (check_failed rc out e)
  with assms show ?thesis by simp
next
  case (check_passed rc out)
  with assms setup_repos_result [of w self _ r] show ?thesis by simp
qed

subsection \<open>Full success\<close>

lemma grab_repos_success:
  assumes "all_succeeded (fst (grab_repos w self tr))"
  shows "snd (grab_repos w self tr) = Inr 0"
proof (cases "required_submodules self = []")
  case True
  then show ?thesis by (simp add: grab_repos_def)
next
  case False
  show ?thesis
  proof (cases rule: sync_repos_cases [of w self tr])
    case (synced p)
    let ?tr1 = "tr @ [Log PROGRESS (''## Syncing Git repositories: '' @ submodule_string self @ ''...''),
                      Cmd (sync_call self) (Inr p), Log PROGRESS done_msg]"
    from False synced
    have g: "grab_repos w self tr = submodule_loop w self (required_submodules self) ?tr1 0"
      by (simp add: grab_repos_def)
    from submodule_loop_extends [of self "required_submodules self" ?tr1 w 0]
    obtain new where new: "fst (submodule_loop w self (required_submodules self) ?tr1 0) = ?tr1 @ new"
      by (auto elim: extends_obtain)
    with assms g have "all_succeeded (?tr1 @ new)" by simp
    then have "all_succeeded new" by (simp only: all_succeeded_append)
    from submodule_loop_success [OF new this] g show ?thesis by simp
  next
    case (failed m)
    with False
    have "Cmd (sync_call self) (Inl (RuntimeError m)) \<in> set (fst (grab_repos w self tr))"
      by (simp add: grab_repos_def)
    from all_succeeded_Cmd [OF assms this] show ?thesis by simp
  next
    case (escaped e)
    with False
    have "Cmd (sync_call self) (Inl e) \<in> set (fst (grab_repos w self tr))"
      by (simp add: grab_repos_def)
    from all_succeeded_Cmd [OF assms this] show ?thesis by simp
  qed
qed

lemma setup_repos_success:
  assumes "all_succeeded (fst (setup_repos w self tr))"
  shows "snd (setup_repos w self tr) = Inr 0"
proof (cases "force_it self")
  case False
  with assms grab_repos_success [of w self tr] show ?thesis
    by (simp add: setup_repos_def)
next
  case True
  show ?thesis
  proof (cases rule: force_clean_cases [of w self tr])
    case (cleaned tr1)
    with True assms grab_repos_success [of w self tr1] show ?thesis
      by (simp add: setup_repos_def)
  next
    case (failed tr1 c m)
    with True
    have "Cmd c (Inl (RuntimeError m)) \<in> set (fst (setup_repos w self tr))"
      by (simp add: setup_repos_def)
    from all_succeeded_Cmd [OF assms this] show ?thesis by simp
  next
    case (escaped tr1 c e)
    with True
    have "Cmd c (Inl e) \<in> set (fst (setup_repos w self tr))"
      by (simp add: setup_repos_def)
    from all_succeeded_Cmd [OF assms this] show ?thesis by simp
  qed
qed

lemma Go_success:
  assumes "run_cmd w [] git_version_call = Inr (rc, out)"
    and "check_git_version (strip out) = Inr ()"
    and "all_succeeded (fst (Go w self))"
  shows "snd (Go w self) = Inr 0"
proof (cases rule: Go_cases [of w self])
  case (query_raised e)
  with assms show ?thesis by simp
next
  case (check_failed rc' out' e)
  with assms show ?thesis by simp
next
  case (check_passed rc' out')
  with assms(3) setup_repos_success [of w self] show ?thesis by simp
qed

subsection \<open>A fatal stage that fails\<close>

lemma grab_repos_fatal:
  assumes ev: "Cmd c (Inl (RuntimeError m)) \<in> set (fst (grab_repos w self tr))"
    and fresh: "Cmd c (Inl (RuntimeError m)) \<notin> set tr"
    and kind: "clean_stage_call w self c \<or> c = sync_call self"
  shows "snd (grab_repos w self tr) = Inr (-1)"
proof (cases "required_submodules self = []")
  case True
  with ev fresh show ?thesis by (simp add: grab_repos_def)
next
  case False
  show ?thesis
  proof (cases rule: sync_repos_cases [of w self tr])
    case (synced p)
    let ?tr1 = "tr @ [Log PROGRESS (''## Syncing Git repositories: '' @ submodule_string self @ ''...''),
                      Cmd (sync_call self) (Inr p), Log PROGRESS done_msg]"
    from False synced
    have g: "grab_repos w self tr = submodule_loop w self (required_submodules self) ?tr1 0"
      by (simp add: grab_repos_def)
    from fresh have f1: "Cmd c (Inl (RuntimeError m)) \<notin> set ?tr1" by simp
    from ev g have "Cmd c (Inl (RuntimeError m))
        \<in> set (fst (submodule_loop w self (required_submodules self) ?tr1 0))" by simp
    from extends_Cmd_mem [OF submodule_loop_extends this] f1
    have "submodule_stage_call self (required_submodules self) c" by simp
    with kind submodule_stage_not_clean [of self _ c w] submodule_stage_not_sync [of self _ c]
    show ?thesis by blast
  next
    case (failed m')
    with False show ?thesis by (simp add: grab_repos_def)
  next
    case (escaped e)
    with False ev fresh show ?thesis by (auto simp: grab_repos_def)
  qed
qed

lemma setup_repos_fatal:
  assumes ev: "Cmd c (Inl (RuntimeError m)) \<in> set (fst (setup_repos w self tr))"
    and fresh: "Cmd c (Inl (RuntimeError m)) \<notin> set tr"
    and kind: "clean_stage_call w self c \<or> c = sync_call self"
  shows "snd (setup_repos w self tr) = Inr (-1)"
proof (cases "force_it self")
  case False
  with ev fresh kind grab_repos_fatal [of c m w self tr] show ?thesis
    by (simp add: setup_repos_def)
next
  case True
  show ?thesis
  proof (cases rule: force_clean_cases [of w self tr])
    case (cleaned tr1)
    with fresh have "Cmd c (Inl (RuntimeError m)) \<notin> set tr1" by blast
    with True cleaned(1) ev kind grab_repos_fatal [of c m w self tr1] show ?thesis
      by (simp add: setup_repos_def)
  next
    case (failed tr1 c' m')
    with True show ?thesis by (simp add: setup_repos_def)
  next
    case (escaped tr1 c' e)
    with True ev have "Cmd c (Inl (RuntimeError m)) \<in> set tr1"
      by (simp add: setup_repos_def)
    from force_clean_escaped_only [OF escaped(1) this fresh] escaped(2)
    show ?thesis by blast
  qed
qed

lemma clean_stage_not_version: "clean_stage_call w self c \<Longrightarrow> c \<noteq> git_version_call"
  by (auto simp: clean_stage_call_def root_stage_call_def submodule_clean_stage_call_def
        root_reset_call_def root_clean_call_def submodule_reset_call_def
        submodule_clean_call_def git_version_call_def)

lemma sync_not_version: "sync_call self \<noteq> git_version_call"
  by (simp add: sync_call_def git_version_call_def)

lemma Go_fatal:
  assumes ev: "Cmd c (Inl (RuntimeError m)) \<in> set (fst (Go w self))"
    and kind: "clean_stage_call w self c \<or> c = sync_call self"
  shows "snd (Go w self) = Inr (-1)"
proof -
  from kind clean_stage_not_version [of w self c] sync_not_version [of self]
  have nv: "c \<noteq> git_version_call" by auto
  show ?thesis
  proof (cases rule: Go_cases [of w self])
    case (query_raised e)
    with ev nv show ?thesis by simp
  next
    case (check_failed rc out e)
    with ev nv show ?thesis by simp
  next
    case (check_passed rc out)
    let ?tr = "[Cmd git_version_call (Inr (rc, out)), ReportVersion ''Git'' (strip out) TOOL]"
    from nv have fresh: "Cmd c (Inl (RuntimeError m)) \<notin> set ?tr" by simp
    from check_passed ev
    have "Cmd c (Inl (RuntimeError m)) \<in> set (fst (setup_repos w self ?tr))" by simp
    from setup_repos_fatal [OF this fresh kind] check_passed show ?thesis by simp
  qed
qed

lemma check_2_39_2: "check_git_version (strip (''git version 2.39.2'' @ [newline])) = Inr ()"
  by code_simp

lemma Go_old_git:
  "Go (scripted_world ''2.10.0'' all_ok nothing_exists) setup0 =
    ([Cmd (Call ''git'' ''--version'' None True) (Inr (0, ''git version 2.10.0'' @ [newline])),
      ReportVersion ''Git'' ''git version 2.10.0'' TOOL],
     Inl (RuntimeError ''Please upgrade Git! Current version is 2.10.0. Minimum is 2.11.0.''))"
  by code_simp

text \<open>
  Claim C1, as amended. When \<open>Go\<close> returns, it returns 0 or -1. It returns 0 when the
  version check passes and every command of the run exits with code 0. It returns -1 when
  a command of the force clean or the sync raises a \<open>RuntimeError\<close>. A failed version check
  is different: the exception of the check (the \<open>RuntimeError\<close> "Please upgrade Git!" for
  a version older than 2.11.0) is raised out of \<open>Go\<close>, after the version query and the
  version report and nothing else; no integer is returned.
\<close>

theorem Go_result_codes:
  "(\<forall>r. snd (Go w self) = Inr r \<longrightarrow> r = 0 \<or> r = -1)
   \<and> (\<forall>rc out. run_cmd w [] git_version_call = Inr (rc, out)
                 \<and> check_git_version (strip out) = Inr ()
                 \<and> all_succeeded (fst (Go w self)) \<longrightarrow>
         snd (Go w self) = Inr 0)
   \<and> (\<forall>c m. Cmd c (Inl (RuntimeError m)) \<in> set (fst (Go w self))
              \<and> (clean_stage_call w self c \<or> c = sync_call self) \<longrightarrow>
         snd (Go w self) = Inr (-1))
   \<and> (\<forall>rc out e. run_cmd w [] git_version_call = Inr (rc, out)
                   \<and> check_git_version (strip out) = Inl e \<longrightarrow>
         Go w self = ([Cmd git_version_call (Inr (rc, out)),
                       ReportVersion ''Git'' (strip out) TOOL], Inl e))"
proof (intro conjI allI impI)
  fix r
  assume "snd (Go w self) = Inr r"
  then show "r = 0 \<or> r = -1" by (rule Go_result)
next
  fix rc out
  assume "run_cmd w [] git_version_call = Inr (rc, out)
          \<and> check_git_version (strip out) = Inr ()
          \<and> all_succeeded (fst (Go w self))"
  then show "snd (Go w self) = Inr 0"
    using Go_success [of w rc out self] by blast
next
  fix c m
  assume "Cmd c (Inl (RuntimeError m)) \<in> set (fst (Go w self))
          \<and> (clean_stage_call w self c \<or> c = sync_call self)"
  then show "snd (Go w self) = Inr (-1)"
    using Go_fatal [of c m w self] by blast
next
  fix rc out e
  assume h: "run_cmd w [] git_version_call = Inr (rc, out)
             \<and> check_git_version (strip out) = Inl e"
  show "Go w self = ([Cmd git_version_call (Inr (rc, out)),
                      ReportVersion ''Git'' (strip out) TOOL], Inl e)"
  proof (cases rule: Go_cases [of w self])
    case (query_raised e')
    with h show ?thesis by simp
  next
    case (check_failed rc' out' e')
    with h show ?thesis by simp
  next
    case (check_passed rc' out')
    with h show ?thesis by simp
  qed
qed

theorem Go_result_codes_witness:
  "check_git_version (strip (''git version 2.39.2'' @ [newline])) = Inr ()
   \<and> all_succeeded (fst (Go (scripted_world ''2.39.2'' all_ok nothing_exists) setup0))
   \<and> snd (Go (scripted_world ''2.39.2'' all_ok nothing_exists) setup0) = Inr 0
   \<and> Cmd (root_reset_call setup_forced)
        (Inl (RuntimeError ''git reset --hard failed with error code 128''))
       \<in> set (fst (Go (scripted_world ''2.39.2'' reset_fails nothing_exists) setup_forced))
   \<and> clean_stage_call (scripted_world ''2.39.2'' reset_fails nothing_exists) setup_forced
        (root_reset_call setup_forced)
   \<and> snd (Go (scripted_world ''2.39.2'' reset_fails nothing_exists) setup_forced) = Inr (- 1)
   \<and> check_git_version (strip (''git version 2.10.0'' @ [newline]))
       = Inl (RuntimeError ''Please upgrade Git! Current version is 2.10.0. Minimum is 2.11.0.'')
   \<and> snd (Go (scripted_world ''2.10.0'' all_ok nothing_exists) setup0)
       = Inl (RuntimeError ''Please upgrade Git! Current version is 2.10.0. Minimum is 2.11.0.'')"
proof -
  let ?ok = "scripted_world ''2.39.2'' all_ok nothing_exists"
  let ?rf = "scripted_world ''2.39.2'' reset_fails nothing_exists"
  let ?old = "scripted_world ''2.10.0'' all_ok nothing_exists"
  let ?msg = "''Please upgrade Git! Current version is 2.10.0. Minimum is 2.11.0.''"
  have v: "run_cmd ?ok [] git_version_call = Inr (0, ''git version 2.39.2'' @ [newline])"
    by (simp add: scripted_world_def)
  have a: "all_succeeded (fst (Go ?ok setup0))"
    unfolding Go_plain_ok by (simp add: all_succeeded_def)
  from Go_result_codes [of ?ok setup0] v check_2_39_2 a
  have r0: "snd (Go ?ok setup0) = Inr 0"
    by blast
  have rr: "root_reset_call setup_forced = Call ''git'' ''reset --hard'' (Some ''/ws'') True"
    by (simp add: root_reset_call_def setup_forced_def setup0_def)
  have e: "Cmd (root_reset_call setup_forced)
             (Inl (RuntimeError ''git reset --hard failed with error code 128''))
           \<in> set (fst (Go ?rf setup_forced))"
    unfolding rr Go_forced_reset_fails by simp
  have k: "clean_stage_call ?rf setup_forced (root_reset_call setup_forced)"
    by (simp add: clean_stage_call_def root_stage_call_def)
  from Go_result_codes [of ?rf setup_forced] e k
  have r1: "snd (Go ?rf setup_forced) = Inr (- 1)"
    by blast
  have vo: "run_cmd ?old [] git_version_call = Inr (0, ''git version 2.10.0'' @ [newline])"
    by (simp add: scripted_world_def)
  have co: "check_git_version (strip (''git version 2.10.0'' @ [newline])) = Inl (RuntimeError ?msg)"
    by code_simp
  from Go_result_codes [of ?old setup0] vo co
  have "Go ?old setup0
          = ([Cmd git_version_call (Inr (0, ''git version 2.10.0'' @ [newline])),
              ReportVersion ''Git'' (strip (''git version 2.10.0'' @ [newline])) TOOL],
             Inl (RuntimeError ?msg))"
    by blast
  then have r2: "snd (Go ?old setup0) = Inl (RuntimeError ?msg)"
    by simp
  from check_2_39_2 a r0 e k r1 co r2 show ?thesis
    by (intro conjI)
qed

theorem Go_result_codes_counterexample:
  "Go (scripted_world ''2.10.0'' all_ok nothing_exists) setup0 =
    ([Cmd (Call ''git'' ''--version'' None True) (Inr (0, ''git version 2.10.0'' @ [newline])),
      ReportVersion ''Git'' ''git version 2.10.0'' TOOL],
     Inl (RuntimeError ''Please upgrade Git! Current version is 2.10.0. Minimum is 2.11.0.''))
   \<and> snd (Go (scripted_world ''2.10.0'' all_ok nothing_exists) setup0) \<noteq> Inr (- 1)"
  by (simp add: Go_old_git)

subsection \<open>No required submodules\<close>




section \<open>The minimum version of Git\<close>

subsection \<open>Splitting and joining\<close>









subsection \<open>The comparison with the minimum\<close>




subsection \<open>The version check\<close>


subsection \<open>No \<open>RuntimeError\<close> leaves the stages after the version check\<close>



lemma Go_check_failed:
  assumes "run_cmd w [] git_version_call = Inr (rc, out)"
    and "check_git_version (strip out) = Inl e"
  shows "Go w self = ([Cmd git_version_call (Inr (rc, out)),
                       ReportVersion ''Git'' (strip out) TOOL], Inl e)"
proof (cases rule: Go_cases [of w self])
  case (query_raised e')
  with assms show ?thesis by simp
next
  case (check_failed rc' out' e')
  with assms show ?thesis by simp
next
  case (check_passed rc' out')
  with assms show ?thesis by simp
qed




section \<open>Exceptions that no handler catches\<close>







section \<open>A fatal stage ends the run before the first fetch\<close>

lemma fetch_call_parameters: "prefix ''submodule update'' (parameters (fetch_call self sm))"
  by (simp add: fetch_call_def cmd_string_def)

lemma clean_stage_not_fetch:
  "clean_stage_call w self c \<Longrightarrow> \<not> prefix ''submodule update'' (parameters c)"
  by (auto simp: clean_stage_call_def root_stage_call_def submodule_clean_stage_call_def
        root_reset_call_def root_clean_call_def submodule_reset_call_def
        submodule_clean_call_def)

lemma sync_not_fetch: "\<not> prefix ''submodule update'' (parameters (sync_call self))"
  by (simp add: sync_call_def)

lemma version_not_fetch: "\<not> prefix ''submodule update'' (parameters git_version_call)"
  by (simp add: git_version_call_def)

lemma grab_repos_stops:
  assumes ev: "Cmd c (Inl e) \<in> set (fst (grab_repos w self tr))"
    and fresh: "Cmd c (Inl e) \<notin> set tr"
    and kind: "clean_stage_call w self c \<or> c = sync_call self"
  shows "calls (fst (grab_repos w self tr)) = calls tr @ [sync_call self]"
proof (cases "required_submodules self = []")
  case True
  with ev fresh show ?thesis by (simp add: grab_repos_def)
next
  case False
  show ?thesis
  proof (cases rule: sync_repos_cases [of w self tr])
    case (synced p)
    let ?tr1 = "tr @ [Log PROGRESS (''## Syncing Git repositories: '' @ submodule_string self @ ''...''),
                      Cmd (sync_call self) (Inr p), Log PROGRESS done_msg]"
    from False synced
    have g: "grab_repos w self tr = submodule_loop w self (required_submodules self) ?tr1 0"
      by (simp add: grab_repos_def)
    from fresh have f1: "Cmd c (Inl e) \<notin> set ?tr1" by simp
    from ev g have "Cmd c (Inl e)
        \<in> set (fst (submodule_loop w self (required_submodules self) ?tr1 0))" by simp
    from extends_Cmd_mem [OF submodule_loop_extends this] f1
    have "submodule_stage_call self (required_submodules self) c" by simp
    with kind submodule_stage_not_clean [of self _ c w] submodule_stage_not_sync [of self _ c]
    show ?thesis by blast
  next
    case (failed m)
    with False show ?thesis by (simp add: grab_repos_def calls_append)
  next
    case (escaped e')
    with False show ?thesis by (simp add: grab_repos_def calls_append)
  qed
qed

lemma setup_repos_stops:
  assumes ev: "Cmd c (Inl e) \<in> set (fst (setup_repos w self tr))"
    and fresh: "Cmd c (Inl e) \<notin> set tr"
    and kind: "clean_stage_call w self c \<or> c = sync_call self"
    and mem: "c' \<in> set (calls (fst (setup_repos w self tr)))"
  shows "c' \<in> set (calls tr) \<or> clean_stage_call w self c' \<or> c' = sync_call self"
proof (cases "force_it self")
  case False
  with ev have "Cmd c (Inl e) \<in> set (fst (grab_repos w self tr))"
    by (simp add: setup_repos_def)
  from grab_repos_stops [OF this fresh kind] False mem show ?thesis
    by (auto simp: setup_repos_def)
next
  case True
  show ?thesis
  proof (cases rule: force_clean_cases [of w self tr])
    case (cleaned tr1)
    with fresh have f1: "Cmd c (Inl e) \<notin> set tr1" by blast
    from True cleaned(1) have s: "setup_repos w self tr = grab_repos w self tr1"
      by (simp add: setup_repos_def)
    with ev have "Cmd c (Inl e) \<in> set (fst (grab_repos w self tr1))" by simp
    from grab_repos_stops [OF this f1 kind] s mem
    have "c' \<in> set (calls tr1) \<or> c' = sync_call self" by auto
    with extends_calls_mem [OF cleaned(2), of c'] show ?thesis by blast
  next
    case (failed tr1 c0 m)
    with True mem have "c' \<in> set (calls tr1)"
      by (simp add: setup_repos_def calls_append)
    with extends_calls_mem [OF failed(2), of c'] show ?thesis by blast
  next
    case (escaped tr1 c0 e0)
    with True mem have "c' \<in> set (calls tr1)"
      by (simp add: setup_repos_def)
    with extends_calls_mem [OF escaped(3), of c'] show ?thesis by blast
  qed
qed

lemma setup_stage_not_version: "setup_stage_call w self c \<Longrightarrow> c \<noteq> git_version_call"
  using clean_stage_not_version [of w self c] sync_not_version [of self]
    submodule_stage_not_version [of self "required_submodules self" c]
  by (auto simp: setup_stage_call_def grab_stage_call_def)

lemma Go_stops:
  assumes ev: "Cmd c (Inl e) \<in> set (fst (Go w self))"
    and kind: "c = git_version_call \<or> clean_stage_call w self c \<or> c = sync_call self"
    and mem: "c' \<in> set (calls (fst (Go w self)))"
  shows "\<not> prefix ''submodule update'' (parameters c')"
proof (cases rule: Go_cases [of w self])
  case (query_raised e')
  with mem version_not_fetch show ?thesis by simp
next
  case (check_failed rc out e')
  with mem version_not_fetch show ?thesis by simp
next
  case (check_passed rc out)
  let ?tr = "[Cmd git_version_call (Inr (rc, out)), ReportVersion ''Git'' (strip out) TOOL]"
  have fresh: "Cmd c (Inl e) \<notin> set ?tr" by simp
  from check_passed ev have ev': "Cmd c (Inl e) \<in> set (fst (setup_repos w self ?tr))" by simp
  from extends_Cmd_mem [OF setup_repos_extends ev'] fresh
  have "setup_stage_call w self c" by simp
  with setup_stage_not_version have "c \<noteq> git_version_call" by blast
  with kind have kind': "clean_stage_call w self c \<or> c = sync_call self" by simp
  from check_passed mem have "c' \<in> set (calls (fst (setup_repos w self ?tr)))" by simp
  from setup_repos_stops [OF ev' fresh kind' this]
  have "c' = git_version_call \<or> clean_stage_call w self c' \<or> c' = sync_call self" by simp
  with version_not_fetch clean_stage_not_fetch [of w self c'] sync_not_fetch [of self]
  show ?thesis by auto
qed

section \<open>Further concrete runs\<close>

lemma Go_forced_dirty:
  "Go (scripted_world ''2.39.2'' dirty_diff everything_exists) setup_forced =
    ([Cmd (Call ''git'' ''--version'' None True) (Inr (0, ''git version 2.39.2'' @ [newline])),
      ReportVersion ''Git'' ''git version 2.39.2'' TOOL,
      Log PROGRESS ''## Cleaning the root repo...'',
      Cmd (Call ''git'' ''reset --hard'' (Some ''/ws'') True) (Inr (0, [])),
      Cmd (Call ''git'' ''clean -xffd -e Build/SETUPLOG.txt -e Build/SETUPLOG.md'' (Some ''/ws'') True)
        (Inr (0, [])),
      Log PROGRESS (''Done.'' @ [newline]),
      Log PROGRESS ''## Cleaning Git repository: Common/MU...'',
      Cmd (Call ''git'' ''reset --hard'' (Some ''/ws/Common/MU'') True) (Inr (0, [])),
      Cmd (Call ''git'' ''clean -xffd'' (Some ''/ws/Common/MU'') True) (Inr (0, [])),
      Log PROGRESS (''Done.'' @ [newline]),
      Log PROGRESS ''## Cleaning Git repository: Tiano...'',
      Cmd (Call ''git'' ''reset --hard'' (Some ''/ws/Tiano'') True) (Inr (0, [])),
      Cmd (Call ''git'' ''clean -xffd'' (Some ''/ws/Tiano'') True) (Inr (0, [])),
      Log PROGRESS (''Done.'' @ [newline]),
      Log PROGRESS ''## Syncing Git repositories: Common/MU Tiano...'',
      Cmd (Call ''git'' ''submodule sync -- Common/MU Tiano'' (Some ''/ws'') True) (Inr (0, [])),
      Log PROGRESS (''Done.'' @ [newline]),
      Log PROGRESS ''## Checking Git repository: Common/MU...'',
      Log INFO ''## Fetching repo.'',
      Cmd (Call ''git'' ''submodule update --init --recursive --progress Common/MU'' (Some ''/ws'') False)
        (Inr (0, [])),
      Log PROGRESS (''Done.'' @ [newline]),
      Log PROGRESS ''## Checking Git repository: Tiano...'',
      Log INFO ''## Fetching repo.'',
      Cmd (Call ''git'' ''submodule update --init --progress Tiano'' (Some ''/ws'') False)
        (Inr (0, [])),
      Log PROGRESS (''Done.'' @ [newline])],
     Inr 0)"
  by code_simp

lemma Go_forced_reset_exits_128:
  "Go (scripted_world ''2.39.2'' reset_exits_128 everything_exists) setup_forced =
    ([Cmd (Call ''git'' ''--version'' None True) (Inr (0, ''git version 2.39.2'' @ [newline])),
      ReportVersion ''Git'' ''git version 2.39.2'' TOOL,
      Log PROGRESS ''## Cleaning the root repo...'',
      Cmd (Call ''git'' ''reset --hard'' (Some ''/ws'') True)
        (Inl (OtherException ''git reset --hard failed with error code 128''))],
     Inl (OtherException ''git reset --hard failed with error code 128''))"
  by code_simp





section \<open>A run with \<open>force\<close>\<close>

lemma clean_stage_call_iff:
  "clean_stage_call w self c \<longleftrightarrow> c \<in> set (force_clean_calls w self)"
  by (auto simp: clean_stage_call_def root_stage_call_def submodule_clean_stage_call_def
        force_clean_calls_def submodule_clean_calls_def)

lemma forced_run_calls_no_diff: "diff_call self sm \<notin> set (forced_run_calls w self)"
  by (auto simp: forced_run_calls_def force_clean_calls_def submodule_clean_calls_def
        diff_call_def git_version_call_def root_reset_call_def root_clean_call_def
        submodule_reset_call_def submodule_clean_call_def sync_call_def fetch_call_def
        cmd_string_def)

lemma Go_force_no_diff:
  assumes "force_it self"
  shows "diff_call self sm \<notin> set (calls (fst (Go w self)))"
  using set_mono_prefix [OF Go_force_prefix [OF assms, of w]] forced_run_calls_no_diff [of self sm w]
  by blast

lemma Go_stops_no_fetch:
  assumes "Cmd c (Inl e) \<in> set (fst (Go w self))"
    and "c = git_version_call \<or> clean_stage_call w self c \<or> c = sync_call self"
  shows "fetch_call self sm \<notin> set (calls (fst (Go w self)))"
  using Go_stops [OF assms, of "fetch_call self sm"] fetch_call_parameters [of self sm]
  by blast

text \<open>
  Claim C5, as amended. In a run with \<open>force\<close> set the subprocess calls are, in this
  order and with nothing else in between: the version query, the complete force clean
  (reset and clean of the root, then reset and clean of every required submodule), the
  sync, and one fetch for each required submodule in list order. A run may stop early, so
  that its calls are a prefix of this list: no fetch is issued before the force clean is
  complete, and no dirty check (\<open>git diff\<close>) is issued at all. When the sync command has
  returned and the run returns a result code, the list is complete: every required
  submodule has been fetched, whatever its state on disk. When the version query, a
  command of the force clean or the sync raises an exception, no fetch is issued in the
  run.
\<close>

theorem force_fetches_every_submodule:
  assumes "force_it self"
  shows "prefix (calls (fst (Go w self)))
           (git_version_call # root_reset_call self # root_clean_call self
              # concat (map (\<lambda>sm. [submodule_reset_call w self sm,
                                    submodule_clean_call w self sm])
                         (required_submodules self))
              @ sync_call self # map (fetch_call self) (required_submodules self))
       \<and> (\<forall>sm. diff_call self sm \<notin> set (calls (fst (Go w self))))
       \<and> (\<forall>r x. snd (Go w self) = Inr r
                 \<and> Cmd (sync_call self) (Inr x) \<in> set (fst (Go w self)) \<longrightarrow>
               calls (fst (Go w self))
                 = git_version_call # root_reset_call self # root_clean_call self
                     # concat (map (\<lambda>sm. [submodule_reset_call w self sm,
                                           submodule_clean_call w self sm])
                                (required_submodules self))
                     @ sync_call self # map (fetch_call self) (required_submodules self))
       \<and> (\<forall>c e. Cmd c (Inl e) \<in> set (fst (Go w self))
                 \<and> c \<in> set (git_version_call # root_reset_call self # root_clean_call self
                               # concat (map (\<lambda>sm. [submodule_reset_call w self sm,
                                                     submodule_clean_call w self sm])
                                          (required_submodules self))
                               @ [sync_call self]) \<longrightarrow>
               (\<forall>sm. fetch_call self sm \<notin> set (calls (fst (Go w self)))))"
proof (intro conjI allI impI)
  show "prefix (calls (fst (Go w self)))
           (git_version_call # root_reset_call self # root_clean_call self
              # concat (map (\<lambda>sm. [submodule_reset_call w self sm,
                                    submodule_clean_call w self sm])
                         (required_submodules self))
              @ sync_call self # map (fetch_call self) (required_submodules self))"
    using Go_force_prefix [OF assms, of w]
    by (simp add: forced_run_calls_def force_clean_calls_def submodule_clean_calls_def)
next
  fix sm
  show "diff_call self sm \<notin> set (calls (fst (Go w self)))"
    by (rule Go_force_no_diff [OF assms])
next
  fix r x
  assume "snd (Go w self) = Inr r \<and> Cmd (sync_call self) (Inr x) \<in> set (fst (Go w self))"
  then have "calls (fst (Go w self)) = forced_run_calls w self"
    using Go_force_calls [OF assms, of w r x] by blast
  then show "calls (fst (Go w self))
               = git_version_call # root_reset_call self # root_clean_call self
                   # concat (map (\<lambda>sm. [submodule_reset_call w self sm,
                                         submodule_clean_call w self sm])
                              (required_submodules self))
                   @ sync_call self # map (fetch_call self) (required_submodules self)"
    by (simp add: forced_run_calls_def force_clean_calls_def submodule_clean_calls_def)
next
  fix c e sm
  assume h: "Cmd c (Inl e) \<in> set (fst (Go w self))
             \<and> c \<in> set (git_version_call # root_reset_call self # root_clean_call self
                           # concat (map (\<lambda>sm. [submodule_reset_call w self sm,
                                                 submodule_clean_call w self sm])
                                      (required_submodules self))
                           @ [sync_call self])"
  then have ev: "Cmd c (Inl e) \<in> set (fst (Go w self))" by blast
  from h have "c = git_version_call \<or> c \<in> set (force_clean_calls w self) \<or> c = sync_call self"
    by (auto simp: force_clean_calls_def submodule_clean_calls_def)
  then have "c = git_version_call \<or> clean_stage_call w self c \<or> c = sync_call self"
    by (simp add: clean_stage_call_iff)
  with ev show "fetch_call self sm \<notin> set (calls (fst (Go w self)))"
    by (rule Go_stops_no_fetch)
qed

theorem force_fetches_every_submodule_witness:
  "force_it setup_forced
   \<and> path_exists (scripted_world ''2.39.2'' dirty_diff everything_exists) [] ''/ws/Common/MU''
   \<and> run_cmd (scripted_world ''2.39.2'' dirty_diff everything_exists) []
        (Call ''git'' ''diff Common/MU'' (Some ''/ws'') True)
       = Inr (0, ''diff --git a/Readme.md b/Readme.md'' @ [newline])
   \<and> snd (Go (scripted_world ''2.39.2'' dirty_diff everything_exists) setup_forced) = Inr 0
   \<and> Cmd (sync_call setup_forced) (Inr (0, []))
       \<in> set (fst (Go (scripted_world ''2.39.2'' dirty_diff everything_exists) setup_forced))
   \<and> calls (fst (Go (scripted_world ''2.39.2'' dirty_diff everything_exists) setup_forced))
       = [Call ''git'' ''--version'' None True,
          Call ''git'' ''reset --hard'' (Some ''/ws'') True,
          Call ''git'' ''clean -xffd -e Build/SETUPLOG.txt -e Build/SETUPLOG.md'' (Some ''/ws'') True,
          Call ''git'' ''reset --hard'' (Some ''/ws/Common/MU'') True,
          Call ''git'' ''clean -xffd'' (Some ''/ws/Common/MU'') True,
          Call ''git'' ''reset --hard'' (Some ''/ws/Tiano'') True,
          Call ''git'' ''clean -xffd'' (Some ''/ws/Tiano'') True,
          Call ''git'' ''submodule sync -- Common/MU Tiano'' (Some ''/ws'') True,
          Call ''git'' ''submodule update --init --recursive --progress Common/MU'' (Some ''/ws'') False,
          Call ''git'' ''submodule update --init --progress Tiano'' (Some ''/ws'') False]
   \<and> Cmd (Call ''git'' ''reset --hard'' (Some ''/ws'') True)
         (Inl (OtherException ''git reset --hard failed with error code 128''))
       \<in> set (fst (Go (scripted_world ''2.39.2'' reset_exits_128 everything_exists) setup_forced))
   \<and> (\<forall>sm. fetch_call setup_forced sm
          \<notin> set (calls (fst (Go (scripted_world ''2.39.2'' reset_exits_128 everything_exists)
                                 setup_forced))))"
proof -
  let ?w = "scripted_world ''2.39.2'' dirty_diff everything_exists"
  let ?wf = "scripted_world ''2.39.2'' reset_exits_128 everything_exists"
  let ?reset = "Call ''git'' ''reset --hard'' (Some ''/ws'') True"
  let ?exn = "OtherException ''git reset --hard failed with error code 128''"
  have f: "force_it setup_forced"
    by (simp add: setup_forced_def)
  have p: "path_exists ?w [] ''/ws/Common/MU''"
    by (simp add: scripted_world_def everything_exists_def)
  have d: "run_cmd ?w [] (Call ''git'' ''diff Common/MU'' (Some ''/ws'') True)
             = Inr (0, ''diff --git a/Readme.md b/Readme.md'' @ [newline])"
    by (simp add: scripted_world_def dirty_diff_def git_version_call_def)
  have r: "snd (Go ?w setup_forced) = Inr 0"
    by (simp add: Go_forced_dirty)
  have sc: "sync_call setup_forced
              = Call ''git'' ''submodule sync -- Common/MU Tiano'' (Some ''/ws'') True"
    by (simp add: sync_call_def submodule_string_def setup_forced_def setup0_def
          mu_def tiano_def)
  have s: "Cmd (sync_call setup_forced) (Inr (0, [])) \<in> set (fst (Go ?w setup_forced))"
    unfolding sc Go_forced_dirty by simp
  from force_fetches_every_submodule [OF f, of ?w] r s
  have "calls (fst (Go ?w setup_forced))
          = git_version_call # root_reset_call setup_forced # root_clean_call setup_forced
              # concat (map (\<lambda>sm. [submodule_reset_call ?w setup_forced sm,
                                    submodule_clean_call ?w setup_forced sm])
                         (required_submodules setup_forced))
              @ sync_call setup_forced
              # map (fetch_call setup_forced) (required_submodules setup_forced)"
    by blast
  then have c: "calls (fst (Go ?w setup_forced))
       = [Call ''git'' ''--version'' None True,
          Call ''git'' ''reset --hard'' (Some ''/ws'') True,
          Call ''git'' ''clean -xffd -e Build/SETUPLOG.txt -e Build/SETUPLOG.md'' (Some ''/ws'') True,
          Call ''git'' ''reset --hard'' (Some ''/ws/Common/MU'') True,
          Call ''git'' ''clean -xffd'' (Some ''/ws/Common/MU'') True,
          Call ''git'' ''reset --hard'' (Some ''/ws/Tiano'') True,
          Call ''git'' ''clean -xffd'' (Some ''/ws/Tiano'') True,
          Call ''git'' ''submodule sync -- Common/MU Tiano'' (Some ''/ws'') True,
          Call ''git'' ''submodule update --init --recursive --progress Common/MU'' (Some ''/ws'') False,
          Call ''git'' ''submodule update --init --progress Tiano'' (Some ''/ws'') False]"
    by (simp add: Go_forced_dirty)
  have rr: "root_reset_call setup_forced = ?reset"
    by (simp add: root_reset_call_def setup_forced_def setup0_def)
  have ev: "Cmd ?reset (Inl ?exn) \<in> set (fst (Go ?wf setup_forced))"
    unfolding Go_forced_reset_exits_128 by simp
  have k: "?reset \<in> set (git_version_call # root_reset_call setup_forced
                            # root_clean_call setup_forced
                            # concat (map (\<lambda>sm. [submodule_reset_call ?wf setup_forced sm,
                                                  submodule_clean_call ?wf setup_forced sm])
                                       (required_submodules setup_forced))
                            @ [sync_call setup_forced])"
    unfolding rr by simp
  from force_fetches_every_submodule [OF f, of ?wf] ev k
  have n: "\<forall>sm. fetch_call setup_forced sm \<notin> set (calls (fst (Go ?wf setup_forced)))"
    by blast
  from f p d r s c ev n show ?thesis
    by (intro conjI)
qed

theorem force_fetches_every_submodule_counterexample:
  "force_it setup_forced
   \<and> mu \<in> set (required_submodules setup_forced)
   \<and> Go (scripted_world ''2.39.2'' reset_exits_128 everything_exists) setup_forced =
      ([Cmd (Call ''git'' ''--version'' None True) (Inr (0, ''git version 2.39.2'' @ [newline])),
        ReportVersion ''Git'' ''git version 2.39.2'' TOOL,
        Log PROGRESS ''## Cleaning the root repo...'',
        Cmd (Call ''git'' ''reset --hard'' (Some ''/ws'') True)
          (Inl (OtherException ''git reset --hard failed with error code 128''))],
       Inl (OtherException ''git reset --hard failed with error code 128''))
   \<and> fetch_call setup_forced mu
       \<notin> set (calls (fst (Go (scripted_world ''2.39.2'' reset_exits_128 everything_exists)
                              setup_forced)))"
proof -
  have f: "force_it setup_forced"
    by (simp add: setup_forced_def)
  have m: "mu \<in> set (required_submodules setup_forced)"
    by (simp add: setup_forced_def setup0_def)
  have fc: "fetch_call setup_forced mu
              = Call ''git'' ''submodule update --init --recursive --progress Common/MU''
                  (Some ''/ws'') False"
    by (simp add: fetch_call_def cmd_string_def setup_forced_def setup0_def mu_def)
  have n: "fetch_call setup_forced mu
       \<notin> set (calls (fst (Go (scripted_world ''2.39.2'' reset_exits_128 everything_exists)
                              setup_forced)))"
    unfolding fc Go_forced_reset_exits_128 by simp
  from f m n Go_forced_reset_exits_128 show ?thesis
    by (intro conjI)
qed

section \<open>A run with no required submodules\<close>







section \<open>Exceptions in the loop over the submodules\<close>







section \<open>The fetch commands of a run\<close>

lemma fetches_ok_Cons:
  "e \<noteq> Log INFO ''## Fetching repo.'' \<Longrightarrow> fetches_ok Q es \<Longrightarrow> fetches_ok Q (e # es)"
  by (cases es) simp_all

lemma fetches_ok_no_log: "Log INFO ''## Fetching repo.'' \<notin> set es \<Longrightarrow> fetches_ok Q es"
  by (induction es) (auto intro!: fetches_ok_Cons)

lemma fetches_ok_append:
  "fetches_ok Q xs \<Longrightarrow> fetches_ok Q ys \<Longrightarrow> fetches_ok Q (xs @ ys)"
proof (induction Q xs rule: fetches_ok.induct)
  case (1 Q)
  then show ?case by simp
next
  case (2 Q e)
  then show ?case by (simp add: fetches_ok_Cons)
next
  case (3 Q e e' es)
  then show ?case by simp
qed

lemma fetches_ok_nth:
  "fetches_ok Q T \<Longrightarrow> i < length T \<Longrightarrow> T ! i = Log INFO ''## Fetching repo.'' \<Longrightarrow>
   Suc i < length T \<and> (\<exists>c oc. T ! Suc i = Cmd c oc \<and> Q c)"
proof (induction Q T arbitrary: i rule: fetches_ok.induct)
  case (1 Q)
  then show ?case by simp
next
  case (2 Q e)
  then show ?case by simp
next
  case (3 Q e e' es)
  show ?case
  proof (cases i)
    case 0
    with "3.prems" show ?thesis by (cases e') simp_all
  next
    case (Suc j)
    with "3.prems" have "fetches_ok Q (e' # es)" and "j < length (e' # es)"
      and "(e' # es) ! j = Log INFO ''## Fetching repo.''" by simp_all
    from "3.IH" [OF this] Suc show ?thesis by simp
  qed
qed

text \<open>The stages before the loop log nothing at level INFO.\<close>

lemma clean_root_no_info:
  "Log INFO m \<in> set (fst (clean_root w self tr)) \<Longrightarrow> Log INFO m \<in> set tr"
  by (auto simp: clean_root_def RunCmd_def split: sum.splits prod.splits)

lemma clean_submodules_no_info:
  "Log INFO m \<in> set (fst (clean_submodules w self sms tr)) \<Longrightarrow> Log INFO m \<in> set tr"
proof (induction sms arbitrary: tr)
  case Nil
  then show ?case by simp
next
  case (Cons sm sms)
  let ?r = "submodule_reset_call w self sm" and ?c = "submodule_clean_call w self sm"
  let ?tr0 = "tr @ [Log PROGRESS (''## Cleaning Git repository: '' @ path sm @ ''...'')]"
  let ?tr1 = "?tr0 @ [Cmd ?r (run_cmd w ?tr0 ?r)]"
  let ?tr2 = "?tr1 @ [Cmd ?c (run_cmd w ?tr1 ?c)]"
  let ?tr3 = "?tr2 @ [Log PROGRESS done_msg]"
  show ?case
  proof (cases "run_cmd w ?tr0 ?r")
    case (Inl e1)
    with Cons.prems show ?thesis by (auto simp: RunCmd_def)
  next
    case r: (Inr p1)
    show ?thesis
    proof (cases "run_cmd w ?tr1 ?c")
      case (Inl e2)
      with r Cons.prems show ?thesis by (auto simp: RunCmd_def)
    next
      case c: (Inr p2)
      from r c have step: "clean_submodules w self (sm # sms) tr = clean_submodules w self sms ?tr3"
        by (simp add: RunCmd_def)
      with Cons.prems have "Log INFO m \<in> set (fst (clean_submodules w self sms ?tr3))" by simp
      from Cons.IH [OF this] show ?thesis by simp
    qed
  qed
qed

lemma force_clean_body_no_info:
  assumes "Log INFO m \<in> set (fst (force_clean_body w self tr))"
  shows "Log INFO m \<in> set tr"
proof (cases "clean_root w self tr")
  case (Pair tr1 res)
  with clean_root_no_info [of m w self tr]
  have r: "Log INFO m \<in> set tr1 \<Longrightarrow> Log INFO m \<in> set tr" by simp
  show ?thesis
  proof (cases res)
    case (Inl e)
    with Pair assms r show ?thesis by (simp add: force_clean_body_def)
  next
    case (Inr u)
    with Pair assms r clean_submodules_no_info [of m w self "required_submodules self" tr1]
    show ?thesis by (auto simp: force_clean_body_def split: if_splits)
  qed
qed

lemma force_clean_no_info:
  assumes "Log INFO m \<in> set (fst (force_clean w self tr))"
  shows "Log INFO m \<in> set tr"
proof -
  from assms have "Log INFO m \<in> set (fst (force_clean_body w self tr))"
    by (auto simp: force_clean_def split: prod.splits sum.splits exn.splits)
  then show ?thesis by (rule force_clean_body_no_info)
qed

text \<open>One iteration, the loop and the run.\<close>

lemma submodule_step_fetches_ok:
  assumes "fetches_ok Q tr" and "Q (fetch_call self sm)"
  shows "fetches_ok Q (fst (submodule_step w self tr result sm))"
proof -
  have "\<exists>new. fst (submodule_step w self tr result sm) = tr @ new \<and> fetches_ok Q new"
  proof (cases rule: submodule_step_cases [of w self tr result sm])
    case (diff_caught m)
    then show ?thesis by (simp add: fetch_handler_logs_def)
  next
    case (diff_escaped e)
    then show ?thesis by simp
  next
    case (skipped rc out)
    then show ?thesis by simp
  next
    case (fetch_caught pre m)
    with assms(2) show ?thesis
      by (auto simp: fetch_handler_logs_def clean_check_def)
  next
    case (fetch_escaped pre e)
    with assms(2) show ?thesis
      by (auto simp: clean_check_def)
  next
    case (fetch_failed pre rc out)
    with assms(2) show ?thesis
      by (auto simp: fetch_handler_logs_def clean_check_def)
  next
    case (fetched pre out)
    with assms(2) show ?thesis
      by (auto simp: clean_check_def)
  qed
  with assms(1) show ?thesis by (auto simp: fetches_ok_append)
qed

lemma submodule_loop_fetches_ok:
  "fetches_ok Q tr \<Longrightarrow> \<forall>sm\<in>set sms. Q (fetch_call self sm) \<Longrightarrow>
   fetches_ok Q (fst (submodule_loop w self sms tr result))"
proof (induction sms arbitrary: tr result)
  case Nil
  then show ?case by simp
next
  case (Cons sm sms)
  from Cons.prems have s: "fetches_ok Q (fst (submodule_step w self tr result sm))"
    by (simp add: submodule_step_fetches_ok)
  show ?case
  proof (cases "submodule_step w self tr result sm")
    case (Pair tr1 res)
    show ?thesis
    proof (cases res)
      case (Inl e)
      with Pair s show ?thesis by simp
    next
      case (Inr r1)
      with Pair s Cons.prems(2) Cons.IH [of tr1 r1] show ?thesis by simp
    qed
  qed
qed

lemma grab_repos_fetches_ok:
  assumes "Log INFO ''## Fetching repo.'' \<notin> set tr"
    and "\<forall>sm\<in>set (required_submodules self). Q (fetch_call self sm)"
  shows "fetches_ok Q (fst (grab_repos w self tr))"
proof (cases "required_submodules self = []")
  case True
  with assms(1) show ?thesis by (simp add: grab_repos_def fetches_ok_no_log)
next
  case False
  show ?thesis
  proof (cases rule: sync_repos_cases [of w self tr])
    case (synced p)
    let ?tr1 = "tr @ [Log PROGRESS (''## Syncing Git repositories: '' @ submodule_string self @ ''...''),
                      Cmd (sync_call self) (Inr p), Log PROGRESS done_msg]"
    from assms(1) have "fetches_ok Q ?tr1" by (intro fetches_ok_no_log) simp
    from submodule_loop_fetches_ok [OF this assms(2), of w 0] False synced
    show ?thesis by (simp add: grab_repos_def)
  next
    case (failed m)
    with False assms(1) show ?thesis
      by (simp add: grab_repos_def failed_msg_def fetches_ok_no_log)
  next
    case (escaped e)
    with False assms(1) show ?thesis
      by (simp add: grab_repos_def fetches_ok_no_log)
  qed
qed

lemma setup_repos_fetches_ok:
  assumes "Log INFO ''## Fetching repo.'' \<notin> set tr"
    and "\<forall>sm\<in>set (required_submodules self). Q (fetch_call self sm)"
  shows "fetches_ok Q (fst (setup_repos w self tr))"
proof (cases "force_it self")
  case False
  with grab_repos_fetches_ok [OF assms, of w] show ?thesis
    by (simp add: setup_repos_def)
next
  case True
  obtain tr1 res where f: "force_clean w self tr = (tr1, res)"
    by (cases "force_clean w self tr")
  with force_clean_no_info [of "''## Fetching repo.''" w self tr] assms(1)
  have n: "Log INFO ''## Fetching repo.'' \<notin> set tr1" by auto
  show ?thesis
  proof (cases res)
    case (Inl e)
    with True f n show ?thesis by (simp add: setup_repos_def fetches_ok_no_log)
  next
    case (Inr r)
    show ?thesis
    proof (cases r)
      case None
      with True f Inr grab_repos_fetches_ok [OF n assms(2), of w] show ?thesis
        by (simp add: setup_repos_def)
    next
      case (Some x)
      with True f Inr n show ?thesis by (simp add: setup_repos_def fetches_ok_no_log)
    qed
  qed
qed

lemma Go_fetches_ok:
  "fetches_ok (\<lambda>c. \<exists>sm\<in>set (required_submodules self). c = fetch_call self sm) (fst (Go w self))"
proof (cases rule: Go_cases [of w self])
  case (query_raised e)
  then show ?thesis by simp
next
  case (check_failed rc out e)
  then show ?thesis by simp
next
  case (check_passed rc out)
  let ?tr = "[Cmd git_version_call (Inr (rc, out)), ReportVersion ''Git'' (strip out) TOOL]"
  let ?Q = "\<lambda>c. \<exists>sm\<in>set (required_submodules self). c = fetch_call self sm"
  have n: "Log INFO ''## Fetching repo.'' \<notin> set ?tr" by simp
  have q: "\<forall>sm\<in>set (required_submodules self). ?Q (fetch_call self sm)" by blast
  from setup_repos_fetches_ok [OF n q, of w] check_passed show ?thesis
    by simp
qed

text \<open>The command that follows a log line \<open>## Fetching repo.\<close> is the fetch of a required
  submodule.\<close>

lemma Go_fetch_follows:
  assumes "i < length (fst (Go w self))"
    and "fst (Go w self) ! i = Log INFO ''## Fetching repo.''"
  shows "Suc i < length (fst (Go w self))
       \<and> (\<exists>sm\<in>set (required_submodules self). \<exists>oc.
             fst (Go w self) ! Suc i = Cmd (fetch_call self sm) oc)"
  using fetches_ok_nth [OF Go_fetches_ok assms] by blast

text \<open>The fetch is the only command of a run that is issued without
  \<open>raise_exception_on_nonzero\<close>, and the only one that begins with \<open>submodule update\<close>.\<close>

lemma Go_fetch_commands:
  assumes "c \<in> set (calls (fst (Go w self)))"
    and "\<not> raise_exception_on_nonzero c \<or> prefix ''submodule update'' (parameters c)"
  shows "\<exists>sm\<in>set (required_submodules self). c = fetch_call self sm"
  using Go_calls_mem [OF assms(1)] assms(2)
  by (auto simp: setup_stage_call_def clean_stage_call_def grab_stage_call_def
        root_stage_call_def submodule_clean_stage_call_def submodule_stage_call_def
        git_version_call_def root_reset_call_def root_clean_call_def
        submodule_reset_call_def submodule_clean_call_def sync_call_def diff_call_def)

text \<open>
  Claim C8. Let the command line give an omnicache path \<open>p\<close>. If \<open>p\<close> does not exist
  when the options are read, \<open>RetrieveCommandLineOptions\<close> logs one warning, raises
  nothing, and leaves the omnicache unset. The fetch command that the run then builds for
  a submodule is \<open>git submodule update --init [--recursive] --progress <path>\<close>, without a
  \<open>--reference\<close> flag, and these are the fetch commands of the run: every command that
  begins with \<open>submodule update\<close> or is issued without \<open>raise_exception_on_nonzero\<close>, and
  the command that follows each log line \<open>## Fetching repo.\<close>, is this command for one of
  the required submodules. If \<open>p\<close> exists, nothing is logged, the omnicache is \<open>p\<close>, and
  the same holds with the fetch command
  \<open>git submodule update --init [--recursive] --progress --reference p <path>\<close>.
\<close>

theorem omnicache_reference_flag:
  assumes "omnicache_path_arg a = Some p"
  shows "(\<not> path_exists w tr p \<longrightarrow>
            fst (RetrieveCommandLineOptions w tr a self)
              = tr @ [Log WARNING (''Omnicache path set to invalid path: '' @ p)]
          \<and> omnicache_path (snd (RetrieveCommandLineOptions w tr a self)) = None
          \<and> (\<forall>sm. fetch_call (snd (RetrieveCommandLineOptions w tr a self)) sm
                  = Call ''git''
                      (''submodule update --init''
                         @ (if recursive sm then '' --recursive'' else '''')
                         @ '' --progress '' @ path sm)
                      (Some (workspace_path self)) False)
          \<and> (\<forall>c\<in>set (calls (fst (Go w (snd (RetrieveCommandLineOptions w tr a self))))).
                (\<not> raise_exception_on_nonzero c \<or> prefix ''submodule update'' (parameters c)) \<longrightarrow>
                (\<exists>sm\<in>set (required_submodules self).
                   c = Call ''git''
                         (''submodule update --init''
                            @ (if recursive sm then '' --recursive'' else '''')
                            @ '' --progress '' @ path sm)
                         (Some (workspace_path self)) False))
          \<and> (\<forall>i. i < length (fst (Go w (snd (RetrieveCommandLineOptions w tr a self))))
                  \<and> fst (Go w (snd (RetrieveCommandLineOptions w tr a self))) ! i
                      = Log INFO ''## Fetching repo.'' \<longrightarrow>
                Suc i < length (fst (Go w (snd (RetrieveCommandLineOptions w tr a self))))
                \<and> (\<exists>sm\<in>set (required_submodules self). \<exists>oc.
                      fst (Go w (snd (RetrieveCommandLineOptions w tr a self))) ! Suc i
                        = Cmd (Call ''git''
                                 (''submodule update --init''
                                    @ (if recursive sm then '' --recursive'' else '''')
                                    @ '' --progress '' @ path sm)
                                 (Some (workspace_path self)) False) oc)))
       \<and> (path_exists w tr p \<longrightarrow>
            fst (RetrieveCommandLineOptions w tr a self) = tr
          \<and> omnicache_path (snd (RetrieveCommandLineOptions w tr a self)) = Some p
          \<and> (\<forall>sm. fetch_call (snd (RetrieveCommandLineOptions w tr a self)) sm
                  = Call ''git''
                      (''submodule update --init''
                         @ (if recursive sm then '' --recursive'' else '''')
                         @ '' --progress --reference '' @ p @ '' '' @ path sm)
                      (Some (workspace_path self)) False)
          \<and> (\<forall>c\<in>set (calls (fst (Go w (snd (RetrieveCommandLineOptions w tr a self))))).
                (\<not> raise_exception_on_nonzero c \<or> prefix ''submodule update'' (parameters c)) \<longrightarrow>
                (\<exists>sm\<in>set (required_submodules self).
                   c = Call ''git''
                         (''submodule update --init''
                            @ (if recursive sm then '' --recursive'' else '''')
                            @ '' --progress --reference '' @ p @ '' '' @ path sm)
                         (Some (workspace_path self)) False))
          \<and> (\<forall>i. i < length (fst (Go w (snd (RetrieveCommandLineOptions w tr a self))))
                  \<and> fst (Go w (snd (RetrieveCommandLineOptions w tr a self))) ! i
                      = Log INFO ''## Fetching repo.'' \<longrightarrow>
                Suc i < length (fst (Go w (snd (RetrieveCommandLineOptions w tr a self))))
                \<and> (\<exists>sm\<in>set (required_submodules self). \<exists>oc.
                      fst (Go w (snd (RetrieveCommandLineOptions w tr a self))) ! Suc i
                        = Cmd (Call ''git''
                                 (''submodule update --init''
                                    @ (if recursive sm then '' --recursive'' else '''')
                                    @ '' --progress --reference '' @ p @ '' '' @ path sm)
                                 (Some (workspace_path self)) False) oc)))"
proof (cases "path_exists w tr p")
  case False
  let ?s = "self\<lparr>force_it := force a, omnicache_path := None\<rparr>"
  let ?call = "\<lambda>sm. Call ''git'' (''submodule update --init''
                                    @ (if recursive sm then '' --recursive'' else '''')
                                    @ '' --progress '' @ path sm)
                      (Some (workspace_path self)) False"
  from assms False
  have r: "RetrieveCommandLineOptions w tr a self
             = (tr @ [Log WARNING (''Omnicache path set to invalid path: '' @ p)], ?s)"
    by (simp add: RetrieveCommandLineOptions_def)
  have fc: "fetch_call ?s sm = ?call sm" for sm
    by (simp add: fetch_call_def cmd_string_def)
  have d: "\<exists>sm\<in>set (required_submodules self). c = ?call sm"
    if "c \<in> set (calls (fst (Go w ?s)))"
      and "\<not> raise_exception_on_nonzero c \<or> prefix ''submodule update'' (parameters c)" for c
    using Go_fetch_commands [OF that] unfolding fc by simp
  have e: "Suc i < length (fst (Go w ?s))
           \<and> (\<exists>sm\<in>set (required_submodules self). \<exists>oc. fst (Go w ?s) ! Suc i = Cmd (?call sm) oc)"
    if "i < length (fst (Go w ?s))" and "fst (Go w ?s) ! i = Log INFO ''## Fetching repo.''" for i
    using Go_fetch_follows [OF that] unfolding fc by simp
  have o: "omnicache_path ?s = None" by simp
  have t: "tr @ [Log WARNING (''Omnicache path set to invalid path: '' @ p)]
             = tr @ [Log WARNING (''Omnicache path set to invalid path: '' @ p)]" ..
  from t fc d e o False show ?thesis
    unfolding r fst_conv snd_conv by (intro conjI impI allI ballI) blast+
next
  case True
  let ?s = "self\<lparr>force_it := force a, omnicache_path := Some p\<rparr>"
  let ?call = "\<lambda>sm. Call ''git'' (''submodule update --init''
                                    @ (if recursive sm then '' --recursive'' else '''')
                                    @ '' --progress --reference '' @ p @ '' '' @ path sm)
                      (Some (workspace_path self)) False"
  from assms True
  have r: "RetrieveCommandLineOptions w tr a self = (tr, ?s)"
    by (simp add: RetrieveCommandLineOptions_def)
  have fc: "fetch_call ?s sm = ?call sm" for sm
    by (simp add: fetch_call_def cmd_string_def)
  have d: "\<exists>sm\<in>set (required_submodules self). c = ?call sm"
    if "c \<in> set (calls (fst (Go w ?s)))"
      and "\<not> raise_exception_on_nonzero c \<or> prefix ''submodule update'' (parameters c)" for c
    using Go_fetch_commands [OF that] unfolding fc by simp
  have e: "Suc i < length (fst (Go w ?s))
           \<and> (\<exists>sm\<in>set (required_submodules self). \<exists>oc. fst (Go w ?s) ! Suc i = Cmd (?call sm) oc)"
    if "i < length (fst (Go w ?s))" and "fst (Go w ?s) ! i = Log INFO ''## Fetching repo.''" for i
    using Go_fetch_follows [OF that] unfolding fc by simp
  have o: "omnicache_path ?s = Some p" by simp
  from fc d e o True show ?thesis
    unfolding r fst_conv snd_conv by (intro conjI impI allI ballI) blast+
qed

theorem omnicache_reference_flag_witness:
  "omnicache_path_arg omnicache_args = Some ''/omnicache''
   \<and> \<not> path_exists (scripted_world ''2.39.2'' all_ok nothing_exists) [] ''/omnicache''
   \<and> fst (RetrieveCommandLineOptions (scripted_world ''2.39.2'' all_ok nothing_exists) []
             omnicache_args setup0)
       = [Log WARNING ''Omnicache path set to invalid path: /omnicache'']
   \<and> omnicache_path (snd (RetrieveCommandLineOptions
                             (scripted_world ''2.39.2'' all_ok nothing_exists) []
                             omnicache_args setup0)) = None
   \<and> fst (Go (scripted_world ''2.39.2'' all_ok nothing_exists)
            (snd (RetrieveCommandLineOptions (scripted_world ''2.39.2'' all_ok nothing_exists) []
                    omnicache_args setup0))) ! 6
       = Log INFO ''## Fetching repo.''
   \<and> fst (Go (scripted_world ''2.39.2'' all_ok nothing_exists)
            (snd (RetrieveCommandLineOptions (scripted_world ''2.39.2'' all_ok nothing_exists) []
                    omnicache_args setup0))) ! Suc 6
       = Cmd (Call ''git'' ''submodule update --init --recursive --progress Common/MU''
                (Some ''/ws'') False) (Inr (0, []))
   \<and> (\<exists>sm\<in>set (required_submodules setup0). \<exists>oc.
         fst (Go (scripted_world ''2.39.2'' all_ok nothing_exists)
                (snd (RetrieveCommandLineOptions (scripted_world ''2.39.2'' all_ok nothing_exists)
                        [] omnicache_args setup0))) ! Suc 6
           = Cmd (Call ''git''
                    (''submodule update --init'' @ (if recursive sm then '' --recursive'' else [])
                       @ '' --progress '' @ path sm)
                    (Some (workspace_path setup0)) False) oc)
   \<and> path_exists (scripted_world ''2.39.2'' all_ok everything_exists) [] ''/omnicache''
   \<and> fst (RetrieveCommandLineOptions (scripted_world ''2.39.2'' all_ok everything_exists) []
             omnicache_args setup0) = []
   \<and> omnicache_path (snd (RetrieveCommandLineOptions
                             (scripted_world ''2.39.2'' all_ok everything_exists) []
                             omnicache_args setup0)) = Some ''/omnicache''
   \<and> fst (Go (scripted_world ''2.39.2'' all_ok everything_exists)
            (snd (RetrieveCommandLineOptions (scripted_world ''2.39.2'' all_ok everything_exists)
                    [] omnicache_args setup0))) ! 12
       = Log INFO ''## Fetching repo.''
   \<and> fst (Go (scripted_world ''2.39.2'' all_ok everything_exists)
            (snd (RetrieveCommandLineOptions (scripted_world ''2.39.2'' all_ok everything_exists)
                    [] omnicache_args setup0))) ! Suc 12
       = Cmd (Call ''git'' ''submodule update --init --progress --reference /omnicache Tiano''
                (Some ''/ws'') False) (Inr (0, []))
   \<and> (\<exists>sm\<in>set (required_submodules setup0). \<exists>oc.
         fst (Go (scripted_world ''2.39.2'' all_ok everything_exists)
                (snd (RetrieveCommandLineOptions
                        (scripted_world ''2.39.2'' all_ok everything_exists)
                        [] omnicache_args setup0))) ! Suc 12
           = Cmd (Call ''git''
                    (''submodule update --init'' @ (if recursive sm then '' --recursive'' else [])
                       @ '' --progress --reference '' @ ''/omnicache'' @ '' '' @ path sm)
                    (Some (workspace_path setup0)) False) oc)"
proof -
  let ?w1 = "scripted_world ''2.39.2'' all_ok nothing_exists"
  let ?w2 = "scripted_world ''2.39.2'' all_ok everything_exists"
  let ?s1 = "snd (RetrieveCommandLineOptions ?w1 [] omnicache_args setup0)"
  let ?s2 = "snd (RetrieveCommandLineOptions ?w2 [] omnicache_args setup0)"
  have a: "omnicache_path_arg omnicache_args = Some ''/omnicache''"
    by (simp add: omnicache_args_def)
  have n: "\<not> path_exists ?w1 [] ''/omnicache''"
    by (simp add: scripted_world_def nothing_exists_def)
  have y: "path_exists ?w2 [] ''/omnicache''"
    by (simp add: scripted_world_def everything_exists_def)
  note t1 = omnicache_reference_flag [OF a, of ?w1 "[]" setup0]
  note t2 = omnicache_reference_flag [OF a, of ?w2 "[]" setup0]
  have s1: "?s1 = setup0"
    using a n by (simp add: RetrieveCommandLineOptions_def omnicache_args_def setup0_def)
  have s2: "?s2 = setup_omni"
    using a y by (simp add: RetrieveCommandLineOptions_def omnicache_args_def setup_omni_def
                       setup0_def)
  have l1: "6 < length (fst (Go ?w1 ?s1))"
    unfolding s1 Go_plain_ok by simp
  have h1: "fst (Go ?w1 ?s1) ! 6 = Log INFO ''## Fetching repo.''"
    unfolding s1 Go_plain_ok by simp
  have k1: "fst (Go ?w1 ?s1) ! Suc 6
              = Cmd (Call ''git'' ''submodule update --init --recursive --progress Common/MU''
                       (Some ''/ws'') False) (Inr (0, []))"
    unfolding s1 Go_plain_ok by simp
  have l2: "12 < length (fst (Go ?w2 ?s2))"
    unfolding s2 Go_omni_ok by simp
  have h2: "fst (Go ?w2 ?s2) ! 12 = Log INFO ''## Fetching repo.''"
    unfolding s2 Go_omni_ok by simp
  have k2: "fst (Go ?w2 ?s2) ! Suc 12
              = Cmd (Call ''git'' ''submodule update --init --progress --reference /omnicache Tiano''
                       (Some ''/ws'') False) (Inr (0, []))"
    unfolding s2 Go_omni_ok by simp
  from t1 n have r1: "fst (RetrieveCommandLineOptions ?w1 [] omnicache_args setup0)
                        = [] @ [Log WARNING (''Omnicache path set to invalid path: '' @ ''/omnicache'')]"
    and r2: "omnicache_path ?s1 = None"
    by blast+
  from t1 n l1 h1
  have d1: "\<exists>sm\<in>set (required_submodules setup0). \<exists>oc.
              fst (Go ?w1 ?s1) ! Suc 6
                = Cmd (Call ''git''
                         (''submodule update --init'' @ (if recursive sm then '' --recursive'' else [])
                            @ '' --progress '' @ path sm)
                         (Some (workspace_path setup0)) False) oc"
    by blast
  from t2 y have r3: "fst (RetrieveCommandLineOptions ?w2 [] omnicache_args setup0) = []"
    and r4: "omnicache_path ?s2 = Some ''/omnicache''"
    by blast+
  from t2 y l2 h2
  have d2: "\<exists>sm\<in>set (required_submodules setup0). \<exists>oc.
              fst (Go ?w2 ?s2) ! Suc 12
                = Cmd (Call ''git''
                         (''submodule update --init'' @ (if recursive sm then '' --recursive'' else [])
                            @ '' --progress --reference '' @ ''/omnicache'' @ '' '' @ path sm)
                         (Some (workspace_path setup0)) False) oc"
    by blast
  from r1 have r1': "fst (RetrieveCommandLineOptions ?w1 [] omnicache_args setup0)
                       = [Log WARNING ''Omnicache path set to invalid path: /omnicache'']"
    by simp
  from a n r1' r2 h1 k1 d1 y r3 r4 h2 k2 d2 show ?thesis
    by (intro conjI)
qed

end
